theory Spec2Isabelle
  imports Main "HOL-Library.Sublist" "HOL-Library.Char_ord" "HOL-Library.List_Lexorder"
begin

section \<open>Strings and paths\<close>

text \<open>
  JavaScript strings are modelled as \<^typ>\<open>string\<close>; \<open>s.startsWith(t)\<close> is
  \<^term>\<open>prefix t s\<close>. \<open>fileName\<close> is \<open>path.split('/').pop()\<close> and \<open>fileExtension\<close> is
  \<open>name.split('.').pop()\<close>: the text after the last separator, the whole string when
  there is none.
\<close>

definition fileName :: "string \<Rightarrow> string" where
  "fileName p = rev (takeWhile (\<lambda>c. c \<noteq> CHR ''/'') (rev p))"

definition fileExtension :: "string \<Rightarrow> string" where
  "fileExtension n = rev (takeWhile (\<lambda>c. c \<noteq> CHR ''.'') (rev n))"

definition startsWithPlus :: "string \<Rightarrow> bool" where
  "startsWithPlus n = prefix ''+'' n"

text \<open>
  The characters the \<open>.\<close> of a JavaScript regular expression does not match (no \<open>s\<close>
  flag): line feed and carriage return. U+2028 and U+2029 are outside \<^typ>\<open>char\<close>.
\<close>

definition lineTerminator :: "char \<Rightarrow> bool" where
  "lineTerminator c = (c = CHR 0x0A \<or> c = CHR 0x0D)"

text \<open>
  \<open>path.match(/^(.+)\//)?.[1]\<close>: the greedy group takes the longest non-empty run of
  characters other than line terminators, from the start of the path, that a \<open>/\<close>
  follows. \<open>None\<close> is \<open>undefined\<close> (no match).
\<close>

definition enclosingDirectory :: "string \<Rightarrow> string option" where
  "enclosingDirectory p =
     (case dropWhile (\<lambda>c. c \<noteq> CHR ''/'') (rev (takeWhile (\<lambda>c. \<not> lineTerminator c) p)) of
        [] \<Rightarrow> None
      | _ # d \<Rightarrow> if d = [] then None else Some (rev d))"

text \<open>\<open>Array.prototype.findLast\<close>: the last element, in list order, that satisfies the predicate.\<close>

definition findLast :: "('a \<Rightarrow> bool) \<Rightarrow> 'a list \<Rightarrow> 'a option" where
  "findLast P xs = find P (rev xs)"

section \<open>Data model of \<open>backends/shared/data.js\<close>\<close>

datatype commit_info = CommitInfo string

text \<open>
  A value of \<open>RepositoryContentsMap\<close> and of the file cache: what is known of a file
  besides its path. An absent property is \<open>None\<close>.
\<close>

record file_data =
  sha :: string
  meta :: "commit_info option"
  text_content :: "string option"
  size_bytes :: "nat option"

text \<open>\<open>BaseFileListItem\<close>: an item of the unfiltered file list.\<close>

record base_file = file_data +
  path :: string

text \<open>
  An item of \<open>allEntryFolders\<close>: \<open>folderPath\<close> for a folder collection, \<open>filePathMap\<close>
  (the entries of an object from locale to path) for a file of a file collection.
\<close>

record entry_folder =
  collectionName :: string
  folderPath :: "string option"
  filePathMap :: "(string \<times> string) list option"

text \<open>An item of \<open>allAssetFolders\<close>.\<close>

record asset_folder =
  assetCollectionName :: "string option"
  internalPath :: string
  entryRelative :: bool

datatype file_type = entry | asset

datatype folder_config = EntryFolder entry_folder | AssetFolder asset_folder

text \<open>\<open>BaseEntryListItem | BaseAssetListItem\<close>: \<open>{ ...fileInfo, type, config }\<close>.\<close>

record list_item = base_file +
  type :: file_type
  config :: folder_config

record file_list =
  entryFiles :: "list_item list"
  assetFiles :: "list_item list"
  allFiles :: "list_item list"
  count :: nat

section \<open>\<open>createFileList\<close>\<close>

text \<open>\<open>Object.values(filePathMap ?? {})\<close>.\<close>

definition objectValues :: "(string \<times> string) list option \<Rightarrow> string list" where
  "objectValues m = (case m of None \<Rightarrow> [] | Some kvs \<Rightarrow> map snd kvs)"

text \<open>
  The callback of the first \<open>findLast\<close> (lines 40-42). A string is truthy when it is
  defined and not empty.
\<close>

definition entryFolderMatches :: "string \<Rightarrow> entry_folder \<Rightarrow> bool" where
  "entryFolderMatches p c =
     (case folderPath c of
        Some fp \<Rightarrow>
          if fp \<noteq> [] then prefix fp p else p \<in> set (objectValues (filePathMap c))
      | None \<Rightarrow> p \<in> set (objectValues (filePathMap c)))"

text \<open>The callback of the second \<open>findLast\<close> (lines 44-52).\<close>

definition mediaFolderMatches :: "string \<Rightarrow> asset_folder \<Rightarrow> bool" where
  "mediaFolderMatches p c =
     (if entryRelative c then prefix (internalPath c @ ''/'') p
      else enclosingDirectory p = Some (internalPath c))"

definition listItem :: "base_file \<Rightarrow> file_type \<Rightarrow> folder_config \<Rightarrow> list_item" where
  "listItem fileInfo t c =
     \<lparr>sha = sha fileInfo, meta = meta fileInfo, text_content = text_content fileInfo,
      size_bytes = size_bytes fileInfo, path = path fileInfo, type = t, config = c\<rparr>"

text \<open>
  One round of the \<open>forEach\<close> of lines 35-76 on the two lists built so far.
  \<open>getFileExtension\<close> is imported from the contents parser.
\<close>

definition classifyFile ::
  "(entry_folder \<Rightarrow> string) \<Rightarrow> entry_folder list \<Rightarrow> asset_folder list \<Rightarrow>
   list_item list \<times> list_item list \<Rightarrow> base_file \<Rightarrow> list_item list \<times> list_item list" where
  "classifyFile getFileExtension allEntryFolders allAssetFolders acc fileInfo =
     (let name = fileName (path fileInfo);
          extension = fileExtension name;
          entryFolderConfig = findLast (entryFolderMatches (path fileInfo)) allEntryFolders;
          mediaFolderConfig = findLast (mediaFolderMatches (path fileInfo)) allAssetFolders;
          entries =
            (case entryFolderConfig of
               Some c \<Rightarrow>
                 if path fileInfo \<in> set (objectValues (filePathMap c))
                    \<or> extension = getFileExtension c
                 then fst acc @ [listItem fileInfo entry (EntryFolder c)]
                 else fst acc
             | None \<Rightarrow> fst acc);
          assets =
            (case mediaFolderConfig of
               Some c \<Rightarrow>
                 if \<not> startsWithPlus name
                    \<and> find (\<lambda>e. path e = path fileInfo) entries = None
                 then snd acc @ [listItem fileInfo asset (AssetFolder c)]
                 else snd acc
             | None \<Rightarrow> snd acc)
      in (entries, assets))"

definition createFileList ::
  "(entry_folder \<Rightarrow> string) \<Rightarrow> entry_folder list \<Rightarrow> asset_folder list \<Rightarrow>
   base_file list \<Rightarrow> file_list" where
  "createFileList getFileExtension allEntryFolders allAssetFolders files =
     (let acc = foldl (classifyFile getFileExtension allEntryFolders allAssetFolders) ([], []) files
      in \<lparr>entryFiles = fst acc, assetFiles = snd acc, allFiles = fst acc @ snd acc,
          count = length (fst acc @ snd acc)\<rparr>)"

section \<open>\<open>fetchAndParseFiles\<close>\<close>

text \<open>
  A rejected promise of a collaborator. The function has no \<open>try\<close>: a rejection ends
  the run at the \<open>await\<close> that meets it, with the effects made so far.
\<close>

datatype error = Rejected string

text \<open>The calls a run makes to its collaborators and the writes it issues to IndexedDB, in order.\<close>

datatype event =
    FetchDefaultBranchName
  | FetchLastCommitHash
  | FetchFileList
  | SetLastCommitHash string
  | FetchFileContents "list_item list"
  | SaveEntries "(string \<times> file_data) list"
  | DeleteEntries "string list"

text \<open>
  The four functions passed in \<open>args\<close>, each by what its promise settles to.
  \<open>RepositoryContentsMap\<close> is given by its entries.
\<close>

record collaborators =
  fetchDefaultBranchName :: "error + string"
  fetchLastCommitHash :: "error + string"
  fetchFileList :: "error + base_file list"
  fetchFileContents :: "list_item list \<Rightarrow> error + (string \<times> file_data) list"

text \<open>What \<open>parseAssetFiles\<close> receives: \<open>{ ...file, name, meta, size, text }\<close>.\<close>

record asset_item = list_item +
  name :: string

text \<open>
  What the module imports and reads: the two folder stores, \<open>getFileExtension\<close> and
  the two parsers, whose results are the values of \<open>allEntries\<close> and \<open>allAssets\<close>.
\<close>

record ('e, 'a) modules =
  getFileExtension :: "entry_folder \<Rightarrow> string"
  allEntryFolders :: "entry_folder list"
  allAssetFolders :: "asset_folder list"
  parseEntryFiles :: "list_item list \<Rightarrow> 'e list"
  parseAssetFiles :: "asset_item list \<Rightarrow> 'a list"

text \<open>
  The state a run reads and writes: \<open>repository.branch\<close>, the \<open>last_commit_hash\<close> key of
  the \<open>meta\<close> database, the entries of the \<open>file-cache\<close> database, the three stores, and
  the log of calls. A write to IndexedDB takes effect where the code issues it.
\<close>

record ('e, 'a) app_state =
  repositoryBranch :: string
  lastCommitHash :: "string option"
  fileCache :: "(string \<times> file_data) list"
  allEntries :: "'e list"
  allAssets :: "'a list"
  dataLoaded :: bool
  calls :: "event list"

text \<open>\<open>a ?? b\<close>.\<close>

definition nullish :: "'v option \<Rightarrow> 'v option \<Rightarrow> 'v option" where
  "nullish a b = (case a of Some v \<Rightarrow> Some v | None \<Rightarrow> b)"

text \<open>\<open>([path, data]) => ({ path, ...data })\<close>.\<close>

definition cachedFile :: "string \<times> file_data \<Rightarrow> base_file" where
  "cachedFile e =
     \<lparr>sha = sha (snd e), meta = meta (snd e), text_content = text_content (snd e),
      size_bytes = size_bytes (snd e), path = fst e\<rparr>"

text \<open>\<open>Object.fromEntries\<close>: a later entry of the same key wins.\<close>

definition fromEntries :: "(string \<times> 'v) list \<Rightarrow> string \<rightharpoonup> 'v" where
  "fromEntries es = map_of (rev es)"

text \<open>
  \<open>Object.keys\<close> of \<open>Object.fromEntries(es)\<close>. A key is created where it first occurs.
  Keys that are array indices (the decimal numeral, without leading zeros, of a number
  below \<open>2\<^sup>3\<^sup>2 - 1\<close>) come first, in ascending numeric order; the other keys follow in
  the order of their creation.
\<close>

definition decimalDigit :: "char \<Rightarrow> bool" where
  "decimalDigit c = (c \<in> set ''0123456789'')"

definition indexValue :: "string \<Rightarrow> nat" where
  "indexValue k = foldl (\<lambda>n c. 10 * n + (of_char c - 48)) 0 k"

definition arrayIndex :: "string \<Rightarrow> bool" where
  "arrayIndex k =
     (k \<noteq> [] \<and> list_all decimalDigit k \<and> (k = ''0'' \<or> take 1 k \<noteq> ''0'')
      \<and> indexValue k < 4294967295)"

definition objectKeys :: "(string \<times> 'v) list \<Rightarrow> string list" where
  "objectKeys es =
     (let created = rev (remdups (rev (map fst es)))
      in sort_key indexValue (filter arrayIndex created)
         @ filter (\<lambda>k. \<not> arrayIndex k) created)"

text \<open>\<open>Object.assign(allFiles[index], cachedFiles[path])\<close>: every property the record has is copied.\<close>

definition objectAssign :: "list_item \<Rightarrow> file_data \<Rightarrow> list_item" where
  "objectAssign target source =
     target\<lparr>sha := sha source,
            meta := nullish (meta source) (meta target),
            text_content := nullish (text_content source) (text_content target),
            size_bytes := nullish (size_bytes source) (size_bytes target)\<rparr>"

text \<open>
  The body of the \<open>forEach\<close> of lines 144-148. \<open>allFiles\<close> holds the very objects of
  \<open>entryFiles\<close> and \<open>assetFiles\<close>, so the assignment shows in all three lists.
\<close>

definition restoreCached :: "(string \<rightharpoonup> file_data) \<Rightarrow> list_item \<Rightarrow> list_item" where
  "restoreCached cachedFiles file =
     (case cachedFiles (path file) of
        Some d \<Rightarrow> if sha d = sha file then objectAssign file d else file
      | None \<Rightarrow> file)"

text \<open>The callbacks of the two \<open>map\<close> calls of lines 155-163 and 169-180.\<close>

definition mergeEntry :: "(string \<rightharpoonup> file_data) \<Rightarrow> list_item \<Rightarrow> list_item" where
  "mergeEntry fetchedFileMap file =
     file\<lparr>text_content := nullish (text_content file)
                              (Option.bind (fetchedFileMap (path file)) text_content),
          meta := nullish (meta file) (Option.bind (fetchedFileMap (path file)) meta)\<rparr>"

definition mergeAsset :: "(string \<rightharpoonup> file_data) \<Rightarrow> list_item \<Rightarrow> asset_item" where
  "mergeAsset fetchedFileMap file =
     \<lparr>sha = sha file,
      meta = nullish (meta file) (Option.bind (fetchedFileMap (path file)) meta),
      text_content = nullish (text_content file)
                       (Option.bind (fetchedFileMap (path file)) text_content),
      size_bytes = nullish (size_bytes file)
                     (Option.bind (fetchedFileMap (path file)) size_bytes),
      path = path file, type = type file, config = config file,
      name = fileName (path file)\<rparr>"

text \<open>
  The \<open>file-cache\<close> database is given by what \<open>cacheDB.entries()\<close> returns: its records
  in the order of their keys, strings being compared character by character. Putting
  a record replaces the record of the same key, if there is one, and keeps the order.
\<close>

definition putEntry :: "string \<Rightarrow> 'v \<Rightarrow> (string \<times> 'v) list \<Rightarrow> (string \<times> 'v) list" where
  "putEntry k v c = insort_key fst (k, v) (filter (\<lambda>e. fst e \<noteq> k) c)"

text \<open>\<open>cacheDB.saveEntries\<close> and \<open>cacheDB.deleteEntries\<close>.\<close>

definition saveEntries ::
  "(string \<times> file_data) list \<Rightarrow> ('e, 'a) app_state \<Rightarrow> ('e, 'a) app_state" where
  "saveEntries es s =
     s\<lparr>fileCache := foldl (\<lambda>c e. putEntry (fst e) (snd e) c) (fileCache s) es,
       calls := calls s @ [SaveEntries es]\<rparr>"

definition deleteEntries :: "string list \<Rightarrow> ('e, 'a) app_state \<Rightarrow> ('e, 'a) app_state" where
  "deleteEntries ks s =
     s\<lparr>fileCache := filter (\<lambda>e. fst e \<notin> set ks) (fileCache s),
       calls := calls s @ [DeleteEntries ks]\<rparr>"

text \<open>Lines 110-116.\<close>

definition resolveBranch ::
  "collaborators \<Rightarrow> ('e, 'a) app_state \<Rightarrow> (error + string) \<times> ('e, 'a) app_state" where
  "resolveBranch cs s =
     (if repositoryBranch s = []
      then (let s' = s\<lparr>calls := calls s @ [FetchDefaultBranchName]\<rparr>
            in case fetchDefaultBranchName cs of
                 Inl e \<Rightarrow> (Inl e, s')
               | Inr branch \<Rightarrow> (Inr branch, s'\<lparr>repositoryBranch := branch\<rparr>))
      else (Inr (repositoryBranch s), s))"

text \<open>The condition of line 121.\<close>

definition cacheIsCurrent :: "string option \<Rightarrow> string \<Rightarrow> (string \<times> file_data) list \<Rightarrow> bool" where
  "cacheIsCurrent cachedHash lastHash cachedFileEntries =
     ((case cachedHash of Some h \<Rightarrow> h \<noteq> [] | None \<Rightarrow> False)
      \<and> cachedHash = Some lastHash
      \<and> length cachedFileEntries \<noteq> 0)"

text \<open>Lines 121-129.\<close>

definition selectFileList ::
  "('e, 'a) modules \<Rightarrow> collaborators \<Rightarrow> string option \<Rightarrow> (string \<times> file_data) list \<Rightarrow>
   string \<Rightarrow> ('e, 'a) app_state \<Rightarrow> (error + file_list) \<times> ('e, 'a) app_state" where
  "selectFileList ms cs cachedHash cachedFileEntries lastHash s =
     (if cacheIsCurrent cachedHash lastHash cachedFileEntries
      then (Inr (createFileList (getFileExtension ms) (allEntryFolders ms) (allAssetFolders ms)
                   (map cachedFile cachedFileEntries)), s)
      else (let s' = s\<lparr>calls := calls s @ [FetchFileList]\<rparr>
            in case fetchFileList cs of
                 Inl e \<Rightarrow> (Inl e, s')
               | Inr files \<Rightarrow>
                   (Inr (createFileList (getFileExtension ms) (allEntryFolders ms)
                           (allAssetFolders ms) files),
                    s'\<lparr>lastCommitHash := Some lastHash,
                       calls := calls s' @ [SetLastCommitHash lastHash]\<rparr>)))"

text \<open>Lines 140-197.\<close>

definition loadFiles ::
  "('e, 'a) modules \<Rightarrow> collaborators \<Rightarrow> (string \<times> file_data) list \<Rightarrow> file_list \<Rightarrow>
   ('e, 'a) app_state \<Rightarrow> (error + unit) \<times> ('e, 'a) app_state" where
  "loadFiles ms cs cachedFileEntries fileList s =
     (let cachedFiles = fromEntries cachedFileEntries;
          entryFiles' = map (restoreCached cachedFiles) (entryFiles fileList);
          assetFiles' = map (restoreCached cachedFiles) (assetFiles fileList);
          allFiles' = map (restoreCached cachedFiles) (allFiles fileList);
          fetchingFiles = filter (\<lambda>f. meta f = None) allFiles';
          s1 = (if length fetchingFiles \<noteq> 0
                then s\<lparr>calls := calls s @ [FetchFileContents fetchingFiles]\<rparr> else s)
      in case (if length fetchingFiles \<noteq> 0 then fetchFileContents cs fetchingFiles else Inr []) of
           Inl e \<Rightarrow> (Inl e, s1)
         | Inr fetchedEntries \<Rightarrow>
             (let fetchedFileMap = fromEntries fetchedEntries;
                  s2 = s1\<lparr>allEntries := parseEntryFiles ms (map (mergeEntry fetchedFileMap) entryFiles'),
                          allAssets := parseAssetFiles ms (map (mergeAsset fetchedFileMap) assetFiles'),
                          dataLoaded := True\<rparr>;
                  usedPaths = map path allFiles';
                  unusedPaths = filter (\<lambda>p. p \<notin> set usedPaths) (objectKeys cachedFileEntries);
                  s3 = (if length fetchingFiles \<noteq> 0 then saveEntries fetchedEntries s2 else s2);
                  s4 = (if length unusedPaths \<noteq> 0 then deleteEntries unusedPaths s3 else s3)
              in (Inr (), s4)))"

definition fetchAndParseFiles ::
  "('e, 'a) modules \<Rightarrow> collaborators \<Rightarrow> ('e, 'a) app_state \<Rightarrow>
   (error + unit) \<times> ('e, 'a) app_state" where
  "fetchAndParseFiles ms cs s =
     (let cachedHash = lastCommitHash s;
          cachedFileEntries = fileCache s
      in case resolveBranch cs s of
           (Inl e, s1) \<Rightarrow> (Inl e, s1)
         | (Inr branch, s1) \<Rightarrow>
             (let s2 = s1\<lparr>calls := calls s1 @ [FetchLastCommitHash]\<rparr>
              in case fetchLastCommitHash cs of
                   Inl e \<Rightarrow> (Inl e, s2)
                 | Inr lastHash \<Rightarrow>
                     (case selectFileList ms cs cachedHash cachedFileEntries lastHash s2 of
                        (Inl e, s3) \<Rightarrow> (Inl e, s3)
                      | (Inr fileList, s3) \<Rightarrow>
                          if count fileList = 0
                          then (Inr (), s3\<lparr>allEntries := [], allAssets := [], dataLoaded := True\<rparr>)
                          else loadFiles ms cs cachedFileEntries fileList s3)))"

text \<open>The calls and writes of one run: what the run adds to the log.\<close>

definition callsOf ::
  "('e, 'a) modules \<Rightarrow> collaborators \<Rightarrow> ('e, 'a) app_state \<Rightarrow> event list" where
  "callsOf ms cs s = drop (length (calls s)) (calls (snd (fetchAndParseFiles ms cs s)))"

section \<open>\<open>getI18nConfig\<close> of \<open>contents/i18n.js\<close>\<close>

text \<open>
  \<open>RawI18nConfig\<close>: the \<open>i18n\<close> object of the site configuration, of a collection or
  of a collection file, by the four properties the function reads. An absent property
  is \<open>None\<close>.
\<close>

record raw_i18n_config =
  raw_structure :: "string option"
  raw_locales :: "string list option"
  default_locale :: "string option"
  save_all_locales :: "bool option"

text \<open>
  Objects live in a store and are named by their address, so that two names of one
  object see each other's writes. The value of an \<open>i18n\<close> property is \<open>undefined\<close>, a
  boolean or (the address of) an object.
\<close>

type_synonym address = nat

type_synonym object_store = "address \<Rightarrow> raw_i18n_config"

datatype i18n_value = I18nUndefined | I18nBoolean bool | I18nObject address

record site_config =
  site_i18n :: i18n_value

record raw_collection =
  collection_i18n :: i18n_value

record raw_collection_file =
  file_i18n :: i18n_value

text \<open>\<open>I18nConfig\<close>, the normalized configuration the function returns.\<close>

record i18n_config =
  i18nEnabled :: bool
  saveAllLocales :: bool
  locales :: "string list"
  defaultLocale :: string
  i18n_structure :: string

text \<open>
  \<open>isObject\<close> is imported from \<open>utils/misc\<close>, which is not among the sources: by its name
  and its use it holds of objects and of nothing else.
\<close>

definition isObject :: "i18n_value \<Rightarrow> bool" where
  "isObject v = (case v of I18nObject _ \<Rightarrow> True | _ \<Rightarrow> False)"

definition truthy :: "i18n_value \<Rightarrow> bool" where
  "truthy v = (case v of I18nUndefined \<Rightarrow> False | I18nBoolean b \<Rightarrow> b | I18nObject _ \<Rightarrow> True)"

text \<open>\<open>Object.assign(target, source)\<close> on two objects of the store: the target is written in place.\<close>

definition assignProperties :: "raw_i18n_config \<Rightarrow> raw_i18n_config \<Rightarrow> raw_i18n_config" where
  "assignProperties target source =
     \<lparr>raw_structure = nullish (raw_structure source) (raw_structure target),
      raw_locales = nullish (raw_locales source) (raw_locales target),
      default_locale = nullish (default_locale source) (default_locale target),
      save_all_locales = nullish (save_all_locales source) (save_all_locales target)\<rparr>"

definition objectAssignAt :: "object_store \<Rightarrow> address \<Rightarrow> i18n_value \<Rightarrow> object_store" where
  "objectAssignAt h target source =
     (case source of
        I18nObject b \<Rightarrow> h(target := assignProperties (h target) (h b))
      | _ \<Rightarrow> h)"

text \<open>
  Lines 26-50: the variable \<open>config\<close> (the address of the site's \<open>i18n\<close> object, or
  \<open>undefined\<close>) and the store when line 50 is passed.
\<close>

definition selectConfig ::
  "object_store \<Rightarrow> site_config option \<Rightarrow> raw_collection option \<Rightarrow>
   raw_collection_file option \<Rightarrow> address option \<times> object_store" where
  "selectConfig h siteConfig collection file =
     (let si = (case siteConfig of Some sc \<Rightarrow> site_i18n sc | None \<Rightarrow> I18nUndefined);
          ci = (case collection of Some c \<Rightarrow> collection_i18n c | None \<Rightarrow> I18nUndefined)
      in if isObject si
         then (case si of
                 I18nObject a \<Rightarrow>
                   if truthy ci
                   then (let h1 = (if isObject ci then objectAssignAt h a ci else h)
                         in case file of
                              Some f \<Rightarrow>
                                if truthy (file_i18n f)
                                then (Some a, if isObject (file_i18n f)
                                              then objectAssignAt h1 a (file_i18n f) else h1)
                                else (None, h1)
                            | None \<Rightarrow> (Some a, h1))
                   else (None, h)
               | _ \<Rightarrow> (None, h))
         else (None, h))"

text \<open>Lines 52-74, on the object \<open>config ?? {}\<close>.\<close>

definition normalize :: "raw_i18n_config \<Rightarrow> bool \<Rightarrow> i18n_config" where
  "normalize raw hasFile =
     (let structure' = (case raw_structure raw of Some v \<Rightarrow> v | None \<Rightarrow> ''single_file'');
          locales' = (case raw_locales raw of Some v \<Rightarrow> v | None \<Rightarrow> []);
          saveAllLocales' = (case save_all_locales raw of Some v \<Rightarrow> v | None \<Rightarrow> True);
          i18nEnabled' = (length locales' \<noteq> 0)
      in \<lparr>i18nEnabled = i18nEnabled',
          saveAllLocales = saveAllLocales',
          locales = (if i18nEnabled' then locales' else [''_default'']),
          defaultLocale =
            (case locales' of
               [] \<Rightarrow> ''_default''
             | l # _ \<Rightarrow>
                 (case default_locale raw of
                    Some d \<Rightarrow> if d \<noteq> [] \<and> d \<in> set locales' then d else l
                  | None \<Rightarrow> l)),
          i18n_structure = (if hasFile then ''single_file'' else structure')\<rparr>)"

definition getI18nConfig ::
  "object_store \<Rightarrow> site_config option \<Rightarrow> raw_collection option \<Rightarrow>
   raw_collection_file option \<Rightarrow> i18n_config \<times> object_store" where
  "getI18nConfig h siteConfig collection file =
     (let (config, h') = selectConfig h siteConfig collection file;
          raw = (case config of
                   Some a \<Rightarrow> h' a
                 | None \<Rightarrow> \<lparr>raw_structure = None, raw_locales = None, default_locale = None,
                             save_all_locales = None\<rparr>)
      in (normalize raw (file \<noteq> None), h'))"

section \<open>Auxiliary definitions\<close>

text \<open>
  What one round of the loop of \<open>createFileList\<close> decides for a path: the entry folder
  the file is listed under, and the asset folder it is listed under, if any.
\<close>

definition entryConfigFor ::
  "(entry_folder \<Rightarrow> string) \<Rightarrow> entry_folder list \<Rightarrow> string \<Rightarrow> entry_folder option" where
  "entryConfigFor gfe efs p =
     (case findLast (entryFolderMatches p) efs of
        Some c \<Rightarrow>
          if p \<in> set (objectValues (filePathMap c)) \<or> fileExtension (fileName p) = gfe c
          then Some c else None
      | None \<Rightarrow> None)"

definition assetConfigFor ::
  "(entry_folder \<Rightarrow> string) \<Rightarrow> entry_folder list \<Rightarrow> asset_folder list \<Rightarrow> string \<Rightarrow>
   asset_folder option" where
  "assetConfigFor gfe efs afs p =
     (case findLast (mediaFolderMatches p) afs of
        Some c \<Rightarrow>
          if \<not> startsWithPlus (fileName p) \<and> entryConfigFor gfe efs p = None
          then Some c else None
      | None \<Rightarrow> None)"

definition entryItemOf ::
  "(entry_folder \<Rightarrow> string) \<Rightarrow> entry_folder list \<Rightarrow> base_file \<Rightarrow> list_item option" where
  "entryItemOf gfe efs f =
     map_option (\<lambda>c. listItem f entry (EntryFolder c)) (entryConfigFor gfe efs (path f))"

definition assetItemOf ::
  "(entry_folder \<Rightarrow> string) \<Rightarrow> entry_folder list \<Rightarrow> asset_folder list \<Rightarrow> base_file \<Rightarrow>
   list_item option" where
  "assetItemOf gfe efs afs f =
     map_option (\<lambda>c. listItem f asset (AssetFolder c)) (assetConfigFor gfe efs afs (path f))"

text \<open>
  The matching rule for entry folders as the specification words it: membership in
  \<open>filePathMap\<close> when the map is present, else the prefix test on \<open>folderPath\<close>. It is
  compared with \<open>entryFolderMatches\<close>, which is the rule of the code.
\<close>

definition specEntryFolderMatches :: "string \<Rightarrow> entry_folder \<Rightarrow> bool" where
  "specEntryFolderMatches p c =
     (case filePathMap c of
        Some kvs \<Rightarrow> p \<in> set (map snd kvs)
      | None \<Rightarrow> (case folderPath c of Some fp \<Rightarrow> prefix fp p | None \<Rightarrow> False))"

subsection \<open>Example configurations\<close>

definition plainFile :: "string \<Rightarrow> string \<Rightarrow> base_file" where
  "plainFile p h = \<lparr>sha = h, meta = None, text_content = None, size_bytes = None, path = p\<rparr>"

definition postsFolder :: entry_folder where
  "postsFolder = \<lparr>collectionName = ''posts'', folderPath = Some ''content/posts'', filePathMap = None\<rparr>"

definition contentFolder :: entry_folder where
  "contentFolder = \<lparr>collectionName = ''pages'', folderPath = Some ''content'', filePathMap = None\<rparr>"

definition rootFolder :: entry_folder where
  "rootFolder = \<lparr>collectionName = ''root'', folderPath = Some [], filePathMap = None\<rparr>"

definition mixedFolder :: entry_folder where
  "mixedFolder =
     \<lparr>collectionName = ''mixed'', folderPath = Some ''content/posts'',
      filePathMap = Some [(''en'', ''data/about.yml'')]\<rparr>"

definition imagesFolder :: asset_folder where
  "imagesFolder = \<lparr>assetCollectionName = None, internalPath = ''static/images'', entryRelative = False\<rparr>"

definition markdown :: "entry_folder \<Rightarrow> string" where
  "markdown c = ''md''"

definition siteObject :: raw_i18n_config where
  "siteObject =
     \<lparr>raw_structure = Some ''single_file'', raw_locales = Some [''en'', ''fr''],
      default_locale = None, save_all_locales = None\<rparr>"

definition blogObject :: raw_i18n_config where
  "blogObject =
     \<lparr>raw_structure = Some ''multiple_folders'', raw_locales = Some [''de''],
      default_locale = None, save_all_locales = None\<rparr>"

definition emptyObject :: raw_i18n_config where
  "emptyObject =
     \<lparr>raw_structure = None, raw_locales = None, default_locale = None, save_all_locales = None\<rparr>"

definition exampleStore :: object_store where
  "exampleStore = (\<lambda>a. emptyObject)(0 := siteObject, 1 := blogObject)"

text \<open>
  A repository with one post and one image, parsers that return the merged files they
  are given, and a content fetch that answers every file it is asked for.
\<close>

definition exampleModules :: "(list_item, asset_item) modules" where
  "exampleModules =
     \<lparr>getFileExtension = markdown, allEntryFolders = [postsFolder],
      allAssetFolders = [imagesFolder], parseEntryFiles = (\<lambda>files. files),
      parseAssetFiles = (\<lambda>files. files)\<rparr>"

definition fetchedData :: "string \<Rightarrow> file_data" where
  "fetchedData h =
     \<lparr>sha = h, meta = Some (CommitInfo ''alice''), text_content = Some ''hello'',
      size_bytes = None\<rparr>"

definition exampleRemote :: collaborators where
  "exampleRemote =
     \<lparr>fetchDefaultBranchName = Inr ''main'',
      fetchLastCommitHash = Inr ''c1'',
      fetchFileList = Inr [plainFile ''content/posts/a.md'' ''1'',
                           plainFile ''static/images/cat.png'' ''2''],
      fetchFileContents = (\<lambda>files. Inr (map (\<lambda>f. (path f, fetchedData (sha f))) files))\<rparr>"

definition emptyRemote :: collaborators where
  "emptyRemote = exampleRemote\<lparr>fetchFileList := Inr []\<rparr>"

definition failingRemote :: collaborators where
  "failingRemote = exampleRemote\<lparr>fetchFileContents := (\<lambda>files. Inl (Rejected ''network''))\<rparr>"

definition otherShaRemote :: collaborators where
  "otherShaRemote =
     exampleRemote\<lparr>fetchFileContents :=
       (\<lambda>files. Inr (map (\<lambda>f. (path f, fetchedData ''other'')) files))\<rparr>"

definition emptyHashRemote :: collaborators where
  "emptyHashRemote = exampleRemote\<lparr>fetchLastCommitHash := Inr []\<rparr>"

definition freshState :: "(list_item, asset_item) app_state" where
  "freshState =
     \<lparr>repositoryBranch = [], lastCommitHash = None, fileCache = [], allEntries = [],
      allAssets = [], dataLoaded = False, calls = []\<rparr>"

definition staleState :: "(list_item, asset_item) app_state" where
  "staleState =
     freshState\<lparr>repositoryBranch := ''main'', lastCommitHash := Some ''c0'',
                fileCache := [(''content/posts/old.md'', fetchedData ''0'')]\<rparr>"

definition syncedState :: "(list_item, asset_item) app_state" where
  "syncedState =
     freshState\<lparr>repositoryBranch := ''main'', lastCommitHash := Some ''c1'',
                fileCache := [(''README.txt'', fetchedData ''3''),
                              (''content/posts/a.md'', fetchedData ''1''),
                              (''static/images/cat.png'', fetchedData ''2'')]\<rparr>"

definition emptyHashState :: "(list_item, asset_item) app_state" where
  "emptyHashState = syncedState\<lparr>lastCommitHash := Some []\<rparr>"

text \<open>
  A remote whose listing is not in key order, and a cache that has a record for each of
  its files but the hash of an earlier commit.
\<close>

definition reorderedRemote :: collaborators where
  "reorderedRemote =
     exampleRemote\<lparr>fetchFileList :=
       Inr [plainFile ''content/posts/z.md'' ''2'', plainFile ''content/posts/a.md'' ''1'']\<rparr>"

definition reorderedState :: "(list_item, asset_item) app_state" where
  "reorderedState =
     freshState\<lparr>repositoryBranch := ''main'', lastCommitHash := Some ''c0'',
                fileCache := [(''content/posts/a.md'', fetchedData ''1''),
                              (''content/posts/z.md'', fetchedData ''2'')]\<rparr>"

section \<open>Properties of \<open>createFileList\<close>\<close>

lemmas example_defs = plainFile_def postsFolder_def imagesFolder_def markdown_def

lemmas classify_defs = findLast_def entryFolderMatches_def mediaFolderMatches_def
  objectValues_def fileName_def fileExtension_def startsWithPlus_def enclosingDirectory_def
  lineTerminator_def listItem_def

lemma path_listItem [simp]: "path (listItem f t c) = path f"
  by (simp add: listItem_def)

lemma find_append_Some:
  "\<forall>z\<in>set us. \<not> P z \<Longrightarrow> P c \<Longrightarrow> find P (us @ c # vs) = Some c"
  by (induction us) auto

lemma findLast_Some_iff:
  "findLast P xs = Some c \<longleftrightarrow> (\<exists>ys zs. xs = ys @ c # zs \<and> P c \<and> (\<forall>z\<in>set zs. \<not> P z))"
proof
  assume "findLast P xs = Some c"
  then show "\<exists>ys zs. xs = ys @ c # zs \<and> P c \<and> (\<forall>z\<in>set zs. \<not> P z)"
    unfolding findLast_def
  proof (induction xs rule: rev_induct)
    case Nil
    then show ?case by simp
  next
    case (snoc x xs)
    show ?case
    proof (cases "P x")
      case True
      with snoc.prems have "c = x" by simp
      with True show ?thesis by (intro exI[of _ xs] exI[of _ "[]"]) simp
    next
      case False
      with snoc.prems have "find P (rev xs) = Some c" by simp
      from snoc.IH[OF this] obtain ys zs where
        "xs = ys @ c # zs" "P c" "\<forall>z\<in>set zs. \<not> P z" by blast
      with False show ?thesis
        by (intro exI[of _ ys] exI[of _ "zs @ [x]"]) simp
    qed
  qed
next
  assume "\<exists>ys zs. xs = ys @ c # zs \<and> P c \<and> (\<forall>z\<in>set zs. \<not> P z)"
  then obtain ys zs where d: "xs = ys @ c # zs" "P c" "\<forall>z\<in>set zs. \<not> P z" by blast
  from find_append_Some[of "rev zs" P c "rev ys"] d(2,3)
  have "find P (rev zs @ c # rev ys) = Some c" by simp
  with d(1) show "findLast P xs = Some c" by (simp add: findLast_def)
qed

lemma set_map_filter: "set (List.map_filter f xs) = {y. \<exists>x\<in>set xs. f x = Some y}"
  by (induction xs) (auto split: option.splits)

lemma classifyFile_step:
  assumes inv: "\<forall>e\<in>set es. entryConfigFor gfe efs (path e) \<noteq> None"
  shows "classifyFile gfe efs afs (es, as) f =
     (es @ (case entryItemOf gfe efs f of Some e \<Rightarrow> [e] | None \<Rightarrow> []),
      as @ (case assetItemOf gfe efs afs f of Some a \<Rightarrow> [a] | None \<Rightarrow> []))"
proof (cases "entryConfigFor gfe efs (path f)")
  case None
  with inv have "\<forall>e\<in>set es. path e \<noteq> path f" by metis
  hence nf: "find (\<lambda>e. path e = path f) es = None" by (simp add: find_None_iff)
  from None nf show ?thesis
    by (auto simp: classifyFile_def entryItemOf_def assetItemOf_def entryConfigFor_def
        assetConfigFor_def Let_def split: option.splits if_splits)
next
  case (Some c)
  have nn: "(find (\<lambda>x. path x = path f) (es @ [listItem f entry cfg]) = None) = False" for cfg
    by (auto simp: find_None_iff)
  from Some show ?thesis
    by (auto simp: classifyFile_def entryItemOf_def assetItemOf_def entryConfigFor_def
        assetConfigFor_def Let_def nn split: option.splits if_splits)
qed

lemma foldl_classifyFile:
  assumes "\<forall>e\<in>set es. entryConfigFor gfe efs (path e) \<noteq> None"
  shows "foldl (classifyFile gfe efs afs) (es, as) files =
     (es @ List.map_filter (entryItemOf gfe efs) files,
      as @ List.map_filter (assetItemOf gfe efs afs) files)"
  using assms
proof (induction files arbitrary: es as)
  case Nil
  then show ?case by simp
next
  case (Cons f files)
  let ?es = "es @ (case entryItemOf gfe efs f of Some e \<Rightarrow> [e] | None \<Rightarrow> [])"
  have inv': "\<forall>e\<in>set ?es. entryConfigFor gfe efs (path e) \<noteq> None"
    using Cons.prems by (cases "entryConfigFor gfe efs (path f)") (auto simp: entryItemOf_def)
  show ?case
    by (simp only: foldl_Cons classifyFile_step[OF Cons.prems] Cons.IH[OF inv'])
       (simp split: option.splits)
qed

lemma entryFiles_createFileList:
  "entryFiles (createFileList gfe efs afs files) = List.map_filter (entryItemOf gfe efs) files"
  by (simp add: createFileList_def foldl_classifyFile Let_def)

lemma assetFiles_createFileList:
  "assetFiles (createFileList gfe efs afs files) = List.map_filter (assetItemOf gfe efs afs) files"
  by (simp add: createFileList_def foldl_classifyFile Let_def)

lemma allFiles_createFileList:
  "allFiles (createFileList gfe efs afs files) =
     entryFiles (createFileList gfe efs afs files) @ assetFiles (createFileList gfe efs afs files)"
  by (simp add: createFileList_def Let_def)

lemma count_createFileList:
  "count (createFileList gfe efs afs files) = length (allFiles (createFileList gfe efs afs files))"
  by (simp add: createFileList_def Let_def)

lemma map_path_entryItems:
  "map path (List.map_filter (entryItemOf gfe efs) files) =
     filter (\<lambda>p. entryConfigFor gfe efs p \<noteq> None) (map path files)"
  by (induction files) (auto simp: entryItemOf_def split: option.splits)

lemma map_path_assetItems:
  "map path (List.map_filter (assetItemOf gfe efs afs) files) =
     filter (\<lambda>p. assetConfigFor gfe efs afs p \<noteq> None) (map path files)"
  by (induction files) (auto simp: assetItemOf_def split: option.splits)

lemma assetConfigFor_not_entry:
  "assetConfigFor gfe efs afs p \<noteq> None \<Longrightarrow> entryConfigFor gfe efs p = None"
  by (auto simp: assetConfigFor_def split: option.splits if_splits)

text \<open>
  Claim C2, as the code has it. The entry files are the input files, in input order,
  whose path some entry folder matches and for which the \<^emph>\<open>last\<close> matching folder of
  \<open>allEntryFolders\<close> either lists the path in its \<open>filePathMap\<close> or expects the
  extension of the file; that last folder is the \<open>config\<close> of the entry, so a later
  folder of the list overrides an earlier one. A folder matches a path when its
  \<open>folderPath\<close> is a non-empty string and the path starts with it; when \<open>folderPath\<close> is
  absent or empty, when the path is a value of its \<open>filePathMap\<close> (never, if the map is
  absent too).
\<close>

theorem entryFiles_last_matching_folder:
  "entryFiles (createFileList gfe efs afs files) =
     List.map_filter
       (\<lambda>f. case findLast (entryFolderMatches (path f)) efs of
               Some c \<Rightarrow>
                 if path f \<in> set (objectValues (filePathMap c))
                    \<or> fileExtension (fileName (path f)) = gfe c
                 then Some (listItem f entry (EntryFolder c)) else None
             | None \<Rightarrow> None) files
   \<and> (e \<in> set (entryFiles (createFileList gfe efs afs files)) \<longleftrightarrow>
        (\<exists>f c ys zs. f \<in> set files \<and> efs = ys @ c # zs
           \<and> entryFolderMatches (path f) c \<and> (\<forall>z\<in>set zs. \<not> entryFolderMatches (path f) z)
           \<and> (path f \<in> set (objectValues (filePathMap c))
                \<or> fileExtension (fileName (path f)) = gfe c)
           \<and> e = listItem f entry (EntryFolder c)))
   \<and> (entryFolderMatches p c \<longleftrightarrow>
        (if folderPath c \<noteq> None \<and> folderPath c \<noteq> Some []
         then prefix (the (folderPath c)) p
         else p \<in> set (objectValues (filePathMap c))))"
proof (intro conjI)
  have eq: "entryItemOf gfe efs =
       (\<lambda>f. case findLast (entryFolderMatches (path f)) efs of
               Some c \<Rightarrow>
                 if path f \<in> set (objectValues (filePathMap c))
                    \<or> fileExtension (fileName (path f)) = gfe c
                 then Some (listItem f entry (EntryFolder c)) else None
             | None \<Rightarrow> None)"
    by (auto simp: fun_eq_iff entryItemOf_def entryConfigFor_def split: option.splits)
  show 1: "entryFiles (createFileList gfe efs afs files) =
     List.map_filter
       (\<lambda>f. case findLast (entryFolderMatches (path f)) efs of
               Some c \<Rightarrow>
                 if path f \<in> set (objectValues (filePathMap c))
                    \<or> fileExtension (fileName (path f)) = gfe c
                 then Some (listItem f entry (EntryFolder c)) else None
             | None \<Rightarrow> None) files"
    by (simp add: entryFiles_createFileList eq)
  have "e \<in> set (entryFiles (createFileList gfe efs afs files)) \<longleftrightarrow>
        (\<exists>f\<in>set files. entryItemOf gfe efs f = Some e)"
    by (simp add: entryFiles_createFileList set_map_filter)
  also have "\<dots> \<longleftrightarrow> (\<exists>f c. f \<in> set files \<and> findLast (entryFolderMatches (path f)) efs = Some c
           \<and> (path f \<in> set (objectValues (filePathMap c))
                \<or> fileExtension (fileName (path f)) = gfe c)
           \<and> e = listItem f entry (EntryFolder c))"
    by (auto simp: entryItemOf_def entryConfigFor_def split: option.splits if_splits)
  also have "\<dots> \<longleftrightarrow> (\<exists>f c ys zs. f \<in> set files \<and> efs = ys @ c # zs
           \<and> entryFolderMatches (path f) c \<and> (\<forall>z\<in>set zs. \<not> entryFolderMatches (path f) z)
           \<and> (path f \<in> set (objectValues (filePathMap c))
                \<or> fileExtension (fileName (path f)) = gfe c)
           \<and> e = listItem f entry (EntryFolder c))"
    unfolding findLast_Some_iff by blast
  finally show "e \<in> set (entryFiles (createFileList gfe efs afs files)) \<longleftrightarrow>
        (\<exists>f c ys zs. f \<in> set files \<and> efs = ys @ c # zs
           \<and> entryFolderMatches (path f) c \<and> (\<forall>z\<in>set zs. \<not> entryFolderMatches (path f) z)
           \<and> (path f \<in> set (objectValues (filePathMap c))
                \<or> fileExtension (fileName (path f)) = gfe c)
           \<and> e = listItem f entry (EntryFolder c))" .
  show "entryFolderMatches p c \<longleftrightarrow>
        (if folderPath c \<noteq> None \<and> folderPath c \<noteq> Some []
         then prefix (the (folderPath c)) p
         else p \<in> set (objectValues (filePathMap c)))"
    by (auto simp: entryFolderMatches_def split: option.splits)
qed

text \<open>
  Two folders match \<open>content/posts/a.md\<close>; the entry carries the one that comes last
  in the list. \<open>b.txt\<close> has the wrong extension and is left out.
\<close>

theorem entryFiles_last_matching_folder_witness:
  "entryFiles (createFileList markdown [postsFolder, contentFolder] [imagesFolder]
      [plainFile ''content/posts/a.md'' ''1'', plainFile ''content/posts/b.txt'' ''2''])
     = [listItem (plainFile ''content/posts/a.md'' ''1'') entry (EntryFolder contentFolder)]
   \<and> entryFolderMatches ''content/posts/a.md'' postsFolder
   \<and> entryFolderMatches ''content/posts/a.md'' contentFolder"
  using entryFiles_last_matching_folder[of markdown "[postsFolder, contentFolder]" "[imagesFolder]"
      "[plainFile ''content/posts/a.md'' ''1'', plainFile ''content/posts/b.txt'' ''2'']"]
  by (simp add: example_defs contentFolder_def classify_defs)

text \<open>
  C2 as the specification words the rule (\<open>filePathMap\<close> first) fails twice. A folder
  with both properties lists a file under its \<open>folderPath\<close> that its \<open>filePathMap\<close>
  does not hold; and a folder whose \<open>folderPath\<close> is the empty string matches nothing,
  though every path starts with the empty string.
\<close>

theorem entry_folder_rule_counterexample:
  "map path (entryFiles (createFileList markdown [mixedFolder] []
      [plainFile ''content/posts/a.md'' ''1''])) = [''content/posts/a.md'']
   \<and> \<not> specEntryFolderMatches ''content/posts/a.md'' mixedFolder
   \<and> specEntryFolderMatches ''index.md'' rootFolder
   \<and> fileExtension (fileName ''index.md'') = markdown rootFolder
   \<and> entryFiles (createFileList markdown [rootFolder] [] [plainFile ''index.md'' ''1'']) = []"
  by (simp add: createFileList_def classifyFile_def specEntryFolderMatches_def example_defs
      mixedFolder_def rootFolder_def classify_defs)

lemma entryConfigFor_iff_listed:
  assumes "f \<in> set files"
  shows "entryConfigFor gfe efs (path f) = None \<longleftrightarrow>
         path f \<notin> path ` set (entryFiles (createFileList gfe efs afs files))"
proof -
  have "path ` set (entryFiles (createFileList gfe efs afs files)) =
        {p \<in> path ` set files. entryConfigFor gfe efs p \<noteq> None}"
    using arg_cong[OF map_path_entryItems[of gfe efs files], of set]
    by (auto simp: entryFiles_createFileList)
  with assms show ?thesis by auto
qed

lemma map_filter_cong:
  "(\<And>x. x \<in> set xs \<Longrightarrow> f x = g x) \<Longrightarrow> List.map_filter f xs = List.map_filter g xs"
  by (induction xs) (auto split: option.splits)

text \<open>
  The asset files are the input files, in input order, that some asset folder matches,
  whose name does not start with \<open>+\<close> and whose path is not the path of an entry file;
  each carries the last asset folder that matches it.
\<close>

lemma assetFiles_last_matching_folder:
  "assetFiles (createFileList gfe efs afs files) =
     List.map_filter
       (\<lambda>f. case findLast (mediaFolderMatches (path f)) afs of
               Some c \<Rightarrow>
                 if \<not> startsWithPlus (fileName (path f))
                    \<and> path f \<notin> path ` set (entryFiles (createFileList gfe efs afs files))
                 then Some (listItem f asset (AssetFolder c)) else None
             | None \<Rightarrow> None) files"
  unfolding assetFiles_createFileList
  by (rule map_filter_cong)
     (auto simp: assetItemOf_def assetConfigFor_def entryConfigFor_iff_listed[symmetric]
        split: option.splits)

text \<open>
  For a path without line terminators the group of the regular expression is the
  directory part of the path: what stands before the last \<open>/\<close>, when it is not empty.
\<close>

lemma enclosingDirectory_single_line:
  assumes "\<forall>c\<in>set p. \<not> lineTerminator c"
  shows "enclosingDirectory p = Some d \<longleftrightarrow>
         d \<noteq> [] \<and> (\<exists>n. p = d @ ''/'' @ n \<and> CHR ''/'' \<notin> set n)"
proof -
  from assms have tw: "takeWhile (\<lambda>c. \<not> lineTerminator c) p = p"
    by (simp add: takeWhile_eq_all_conv)
  show ?thesis
  proof
    assume "enclosingDirectory p = Some d"
    then obtain x r where dw: "dropWhile (\<lambda>c. c \<noteq> CHR ''/'') (rev p) = x # r" and r: "r \<noteq> []" "d = rev r"
      by (auto simp: enclosingDirectory_def tw split: list.splits if_splits)
    have "rev p = takeWhile (\<lambda>c. c \<noteq> CHR ''/'') (rev p) @ x # r"
      using takeWhile_dropWhile_id[of "\<lambda>c. c \<noteq> CHR ''/''" "rev p"] dw by simp
    moreover from dw have "x = CHR ''/''"
      using hd_dropWhile[of "\<lambda>c. c \<noteq> CHR ''/''" "rev p"] by auto
    ultimately have "p = rev r @ ''/'' @ rev (takeWhile (\<lambda>c. c \<noteq> CHR ''/'') (rev p))"
      by (metis append_Cons append_Nil rev.simps(2) rev_append rev_rev_ident append_assoc)
    moreover have "CHR ''/'' \<notin> set (rev (takeWhile (\<lambda>c. c \<noteq> CHR ''/'') (rev p)))"
      by (auto dest: set_takeWhileD)
    ultimately show "d \<noteq> [] \<and> (\<exists>n. p = d @ ''/'' @ n \<and> CHR ''/'' \<notin> set n)"
      using r by blast
  next
    assume "d \<noteq> [] \<and> (\<exists>n. p = d @ ''/'' @ n \<and> CHR ''/'' \<notin> set n)"
    then obtain n where n: "d \<noteq> []" "p = d @ ''/'' @ n" "CHR ''/'' \<notin> set n" by blast
    from n(3) have "dropWhile (\<lambda>c. c \<noteq> CHR ''/'') (rev n @ CHR ''/'' # rev d) = CHR ''/'' # rev d"
      by (auto simp: dropWhile_append3)
    with n(2) have "dropWhile (\<lambda>c. c \<noteq> CHR ''/'') (rev p) = CHR ''/'' # rev d"
      by simp
    with n(1) show "enclosingDirectory p = Some d"
      unfolding enclosingDirectory_def tw by simp
  qed
qed

text \<open>
  Claim C3 says that a file in a subdirectory of \<open>internalPath\<close> is never an asset of a
  folder that is not entry-relative, and the comment of lines 49-50 says so too. The
  regular expression of line 51 stops at a line terminator: for the path
  \<open>static/images/sub\n/dog.png\<close> its group is \<open>static/images\<close>, and the file, which lies
  in the subdirectory \<open>sub\n\<close>, is listed as an asset of \<open>static/images\<close>. Without the
  line feed it is not listed.
\<close>

theorem subdirectory_with_line_feed_listed_as_asset:
  "enclosingDirectory (''static/images/sub'' @ [CHR 0x0A] @ ''/dog.png'') = Some ''static/images''
   \<and> assetFiles (createFileList markdown [postsFolder] [imagesFolder]
        [plainFile (''static/images/sub'' @ [CHR 0x0A] @ ''/dog.png'') ''1''])
     = [listItem (plainFile (''static/images/sub'' @ [CHR 0x0A] @ ''/dog.png'') ''1'') asset
          (AssetFolder imagesFolder)]
   \<and> assetFiles (createFileList markdown [postsFolder] [imagesFolder]
        [plainFile ''static/images/sub/dog.png'' ''1'']) = []"
  by (simp add: createFileList_def classifyFile_def example_defs classify_defs)

text \<open>
  Claim C8, as the code has it. When the paths of the input list are pairwise distinct,
  no path occurs twice in \<open>allFiles\<close>. For every input list, no path is the path of an
  entry file and of an asset file, and \<open>allFiles\<close> is the entry files followed by the
  asset files.
\<close>

theorem allFiles_paths_distinct:
  "(distinct (map path files) \<longrightarrow>
      distinct (map path (allFiles (createFileList gfe efs afs files))))
   \<and> path ` set (entryFiles (createFileList gfe efs afs files))
       \<inter> path ` set (assetFiles (createFileList gfe efs afs files)) = {}
   \<and> allFiles (createFileList gfe efs afs files) =
       entryFiles (createFileList gfe efs afs files) @ assetFiles (createFileList gfe efs afs files)"
proof (intro conjI impI)
  let ?E = "map path (entryFiles (createFileList gfe efs afs files))"
  let ?A = "map path (assetFiles (createFileList gfe efs afs files))"
  have E: "?E = filter (\<lambda>p. entryConfigFor gfe efs p \<noteq> None) (map path files)"
    by (simp add: entryFiles_createFileList map_path_entryItems)
  have A: "?A = filter (\<lambda>p. assetConfigFor gfe efs afs p \<noteq> None) (map path files)"
    by (simp add: assetFiles_createFileList map_path_assetItems)
  have disj: "set ?E \<inter> set ?A = {}"
    unfolding E A using assetConfigFor_not_entry[of gfe efs afs] by auto
  then show "path ` set (entryFiles (createFileList gfe efs afs files))
       \<inter> path ` set (assetFiles (createFileList gfe efs afs files)) = {}"
    by simp
  show "allFiles (createFileList gfe efs afs files) =
       entryFiles (createFileList gfe efs afs files) @ assetFiles (createFileList gfe efs afs files)"
    by (rule allFiles_createFileList)
  assume d: "distinct (map path files)"
  have "distinct ?E" "distinct ?A" unfolding E A using d by simp_all
  with disj have "distinct (?E @ ?A)" by simp
  then show "distinct (map path (allFiles (createFileList gfe efs afs files)))"
    by (simp add: allFiles_createFileList)
qed

text \<open>The scenario of the specification: one entry, one asset, four input paths.\<close>

theorem allFiles_paths_distinct_witness:
  "distinct (map path
      [plainFile ''content/posts/a.md'' ''1'', plainFile ''static/images/cat.png'' ''2'',
       plainFile ''static/images/sub/dog.png'' ''3'', plainFile ''content/pages/+layout.ext'' ''4''])
   \<and> map path (entryFiles (createFileList markdown [postsFolder] [imagesFolder]
      [plainFile ''content/posts/a.md'' ''1'', plainFile ''static/images/cat.png'' ''2'',
       plainFile ''static/images/sub/dog.png'' ''3'', plainFile ''content/pages/+layout.ext'' ''4'']))
     = [''content/posts/a.md'']
   \<and> map path (assetFiles (createFileList markdown [postsFolder] [imagesFolder]
      [plainFile ''content/posts/a.md'' ''1'', plainFile ''static/images/cat.png'' ''2'',
       plainFile ''static/images/sub/dog.png'' ''3'', plainFile ''content/pages/+layout.ext'' ''4'']))
     = [''static/images/cat.png'']
   \<and> distinct (map path (allFiles (createFileList markdown [postsFolder] [imagesFolder]
      [plainFile ''content/posts/a.md'' ''1'', plainFile ''static/images/cat.png'' ''2'',
       plainFile ''static/images/sub/dog.png'' ''3'', plainFile ''content/pages/+layout.ext'' ''4''])))"
  using allFiles_paths_distinct[of
      "[plainFile ''content/posts/a.md'' ''1'', plainFile ''static/images/cat.png'' ''2'',
       plainFile ''static/images/sub/dog.png'' ''3'', plainFile ''content/pages/+layout.ext'' ''4'']"
      markdown "[postsFolder]" "[imagesFolder]"]
  by (simp add: createFileList_def classifyFile_def example_defs classify_defs)

text \<open>
  C8 for every input list fails: a path that the input list holds twice is twice in
  \<open>allFiles\<close>.
\<close>

theorem repeated_path_counterexample:
  "map path (allFiles (createFileList markdown [postsFolder] [imagesFolder]
      [plainFile ''content/posts/a.md'' ''1'', plainFile ''content/posts/a.md'' ''1'']))
     = [''content/posts/a.md'', ''content/posts/a.md'']"
  by (simp add: createFileList_def classifyFile_def example_defs classify_defs)

section \<open>Properties of \<open>fetchAndParseFiles\<close>\<close>

lemma map_of_insort_key:
  "k \<notin> fst ` set c \<Longrightarrow> map_of (insort_key fst (k, v) c) = (map_of c)(k \<mapsto> v)"
  by (induction c) (auto simp: fun_eq_iff)

lemma map_of_putEntry: "map_of (putEntry k v c) = (map_of c)(k \<mapsto> v)"
proof -
  have 1: "map_of (filter (\<lambda>e. fst e \<noteq> k) c) = (map_of c)(k := None)"
    by (induction c) (auto simp: fun_eq_iff)
  have 2: "k \<notin> fst ` set (filter (\<lambda>e. fst e \<noteq> k) c)" by auto
  show ?thesis
    unfolding putEntry_def map_of_insort_key[OF 2] 1 by simp
qed

lemma map_fst_insort_key: "map fst (insort_key fst x c) = insort (fst x) (map fst c)"
  by (induction c) auto

text \<open>Putting and deleting records keep the file cache in key order, one record to a key.\<close>

lemma sorted_putEntry: "sorted (map fst c) \<Longrightarrow> sorted (map fst (putEntry k v c))"
  unfolding putEntry_def map_fst_insort_key
  by (simp add: sorted_insort sorted_filter)

lemma distinct_putEntry: "distinct (map fst c) \<Longrightarrow> distinct (map fst (putEntry k v c))"
  unfolding putEntry_def map_fst_insort_key
  by (auto simp: distinct_insort distinct_map_filter)

lemma saveEntries_key_order:
  "sorted (map fst (fileCache s)) \<and> distinct (map fst (fileCache s)) \<Longrightarrow>
   sorted (map fst (fileCache (saveEntries es s))) \<and> distinct (map fst (fileCache (saveEntries es s)))"
proof -
  have "sorted (map fst c) \<and> distinct (map fst c) \<Longrightarrow>
        sorted (map fst (foldl (\<lambda>c e. putEntry (fst e) (snd e) c) c es))
        \<and> distinct (map fst (foldl (\<lambda>c e. putEntry (fst e) (snd e) c) c es))"
    for c :: "(string \<times> file_data) list"
    by (induction es arbitrary: c) (simp_all add: sorted_putEntry distinct_putEntry)
  then show "sorted (map fst (fileCache s)) \<and> distinct (map fst (fileCache s)) \<Longrightarrow>
   sorted (map fst (fileCache (saveEntries es s))) \<and> distinct (map fst (fileCache (saveEntries es s)))"
    by (simp add: saveEntries_def)
qed

lemma deleteEntries_key_order:
  "sorted (map fst (fileCache s)) \<and> distinct (map fst (fileCache s)) \<Longrightarrow>
   sorted (map fst (fileCache (deleteEntries ks s))) \<and> distinct (map fst (fileCache (deleteEntries ks s)))"
  by (simp add: deleteEntries_def sorted_filter distinct_map_filter)

lemma map_of_foldl_update:
  "map_of (foldl (\<lambda>c e. putEntry (fst e) (snd e) c) c es) = map_of c ++ map_of (rev es)"
proof (induction es arbitrary: c)
  case Nil
  then show ?case by simp
next
  case (Cons e es)
  show ?case
    by (simp add: Cons.IH map_of_putEntry fun_eq_iff map_add_def split: option.splits)
qed

lemma map_of_filter_key:
  "map_of (filter (\<lambda>e. P (fst e)) al) k = (if P k then map_of al k else None)"
  by (induction al) auto

lemma path_restoreCached [simp]: "path (restoreCached m f) = path f"
  by (simp add: restoreCached_def objectAssign_def split: option.splits)

lemma set_objectKeys [simp]: "set (objectKeys es) = fst ` set es"
  by (auto simp: objectKeys_def Let_def)

lemma loadFiles_calls:
  "\<exists>evs. calls (snd (loadFiles ms cs ce fl s)) = calls s @ evs
     \<and> (\<forall>ev\<in>set evs. (\<exists>fs. ev = FetchFileContents fs) \<or> (\<exists>es. ev = SaveEntries es)
           \<or> (\<exists>ks. ev = DeleteEntries ks))
     \<and> ((\<exists>fs. FetchFileContents fs \<in> set evs) \<longleftrightarrow>
          filter (\<lambda>f. meta f = None) (map (restoreCached (fromEntries ce)) (allFiles fl)) \<noteq> [])"
  by (auto simp: loadFiles_def Let_def saveEntries_def deleteEntries_def split: sum.splits)

lemma loadFiles_lastCommitHash [simp]:
  "lastCommitHash (snd (loadFiles ms cs ce fl s)) = lastCommitHash s"
  by (auto simp: loadFiles_def Let_def saveEntries_def deleteEntries_def split: sum.splits)

lemma loadFiles_repositoryBranch [simp]:
  "repositoryBranch (snd (loadFiles ms cs ce fl s)) = repositoryBranch s"
  by (auto simp: loadFiles_def Let_def saveEntries_def deleteEntries_def split: sum.splits)

lemma resolveBranch_eq:
  assumes "repositoryBranch s = [] \<longrightarrow> fetchDefaultBranchName cs = Inr b"
  shows "resolveBranch cs s =
     (Inr (if repositoryBranch s = [] then b else repositoryBranch s),
      s\<lparr>repositoryBranch := (if repositoryBranch s = [] then b else repositoryBranch s),
        calls := calls s @ (if repositoryBranch s = [] then [FetchDefaultBranchName] else [])\<rparr>)"
  using assms by (auto simp: resolveBranch_def Let_def)

lemma fetchAndParseFiles_resolved:
  assumes "repositoryBranch s = [] \<longrightarrow> fetchDefaultBranchName cs = Inr b"
    and "fetchLastCommitHash cs = Inr h"
  shows "fetchAndParseFiles ms cs s =
     (case selectFileList ms cs (lastCommitHash s) (fileCache s) h
        (s\<lparr>repositoryBranch := (if repositoryBranch s = [] then b else repositoryBranch s),
          calls := calls s @ (if repositoryBranch s = [] then [FetchDefaultBranchName] else [])
                     @ [FetchLastCommitHash]\<rparr>) of
        (Inl e, s3) \<Rightarrow> (Inl e, s3)
      | (Inr fileList, s3) \<Rightarrow>
          if count fileList = 0
          then (Inr (), s3\<lparr>allEntries := [], allAssets := [], dataLoaded := True\<rparr>)
          else loadFiles ms cs (fileCache s) fileList s3)"
  by (simp add: fetchAndParseFiles_def resolveBranch_eq[OF assms(1)] assms(2) Let_def)

lemma cacheIsCurrent_iff:
  "cacheIsCurrent c h es \<longleftrightarrow> c = Some h \<and> h \<noteq> [] \<and> es \<noteq> []"
  by (auto simp: cacheIsCurrent_def split: option.splits)

text \<open>
  Claim C1, as the code has it. In a run whose branch and commit hash are resolved,
  \<open>fetchFileList\<close> is called exactly when it is not the case that the cached hash is a
  non-empty string equal to the resolved hash and the file cache is non-empty. In that
  case lines 121-124 call nothing and change nothing, and the file list is
  \<open>createFileList\<close> of the cached records.
\<close>

theorem fetchFileList_called_unless_cache_current:
  assumes "repositoryBranch s = [] \<longrightarrow> fetchDefaultBranchName cs = Inr b"
    and "fetchLastCommitHash cs = Inr h"
  shows "(FetchFileList \<in> set (callsOf ms cs s) \<longleftrightarrow>
            \<not> (lastCommitHash s = Some h \<and> h \<noteq> [] \<and> fileCache s \<noteq> []))
    \<and> (lastCommitHash s = Some h \<and> h \<noteq> [] \<and> fileCache s \<noteq> [] \<longrightarrow>
         (\<forall>s'. selectFileList ms cs (lastCommitHash s) (fileCache s) h s' =
            (Inr (createFileList (getFileExtension ms) (allEntryFolders ms) (allAssetFolders ms)
                    (map cachedFile (fileCache s))), s')))"
proof (cases "cacheIsCurrent (lastCommitHash s) h (fileCache s)")
  case True
  let ?s2 = "s\<lparr>repositoryBranch := (if repositoryBranch s = [] then b else repositoryBranch s),
          calls := calls s @ (if repositoryBranch s = [] then [FetchDefaultBranchName] else [])
                     @ [FetchLastCommitHash]\<rparr>"
  let ?fl = "createFileList (getFileExtension ms) (allEntryFolders ms) (allAssetFolders ms)
                    (map cachedFile (fileCache s))"
  from loadFiles_calls[of ms cs "fileCache s" ?fl ?s2] obtain evs where
    evs: "calls (snd (loadFiles ms cs (fileCache s) ?fl ?s2)) = calls ?s2 @ evs"
      "\<forall>ev\<in>set evs. (\<exists>fs. ev = FetchFileContents fs) \<or> (\<exists>es. ev = SaveEntries es)
           \<or> (\<exists>ks. ev = DeleteEntries ks)"
    by blast
  from evs(2) have "FetchFileList \<notin> set evs" by auto
  with evs(1) True have "FetchFileList \<notin> set (callsOf ms cs s)"
    by (simp add: callsOf_def fetchAndParseFiles_resolved[OF assms] selectFileList_def)
  with True show ?thesis
    by (auto simp: cacheIsCurrent_iff selectFileList_def)
next
  case False
  let ?s2 = "s\<lparr>repositoryBranch := (if repositoryBranch s = [] then b else repositoryBranch s),
          calls := calls s @ (if repositoryBranch s = [] then [FetchDefaultBranchName] else [])
                     @ [FetchLastCommitHash]\<rparr>"
  have "FetchFileList \<in> set (callsOf ms cs s)"
  proof (cases "fetchFileList cs")
    case (Inl e)
    with False show ?thesis
      by (simp add: callsOf_def fetchAndParseFiles_resolved[OF assms] selectFileList_def Let_def)
  next
    case (Inr files)
    let ?fl = "createFileList (getFileExtension ms) (allEntryFolders ms) (allAssetFolders ms) files"
    let ?s3 = "?s2\<lparr>calls := calls ?s2 @ [FetchFileList], lastCommitHash := Some h,
                   calls := (calls ?s2 @ [FetchFileList]) @ [SetLastCommitHash h]\<rparr>"
    from loadFiles_calls[of ms cs "fileCache s" ?fl ?s3] obtain evs where
      evs: "calls (snd (loadFiles ms cs (fileCache s) ?fl ?s3)) = calls ?s3 @ evs"
      by blast
    with False Inr show ?thesis
      by (simp add: callsOf_def fetchAndParseFiles_resolved[OF assms] selectFileList_def Let_def)
  qed
  with False show ?thesis by (auto simp: cacheIsCurrent_iff)
qed

lemmas sync_defs = callsOf_def fetchAndParseFiles_def resolveBranch_def selectFileList_def
  cacheIsCurrent_def loadFiles_def saveEntries_def deleteEntries_def putEntry_def
  restoreCached_def objectAssign_def mergeEntry_def mergeAsset_def fromEntries_def
  objectKeys_def arrayIndex_def decimalDigit_def indexValue_def cachedFile_def
  nullish_def createFileList_def classifyFile_def Let_def

lemmas remote_defs = exampleModules_def exampleRemote_def freshState_def staleState_def
  syncedState_def fetchedData_def

text \<open>
  With the hash of the last run and a cache of three records the listing is not
  fetched; with another hash, or with an empty cache, it is.
\<close>

theorem fetchFileList_called_unless_cache_current_witness:
  "fetchLastCommitHash exampleRemote = Inr ''c1''
   \<and> lastCommitHash syncedState = Some ''c1'' \<and> fileCache syncedState \<noteq> []
   \<and> FetchFileList \<notin> set (callsOf exampleModules exampleRemote syncedState)
   \<and> lastCommitHash staleState = Some ''c0''
   \<and> FetchFileList \<in> set (callsOf exampleModules exampleRemote staleState)
   \<and> fileCache freshState = []
   \<and> FetchFileList \<in> set (callsOf exampleModules exampleRemote freshState)"
proof -
  have h: "fetchLastCommitHash exampleRemote = Inr ''c1''"
    by (simp add: remote_defs)
  have b: "repositoryBranch s = [] \<longrightarrow> fetchDefaultBranchName exampleRemote = Inr ''main''" for s :: "(list_item, asset_item) app_state"
    by (simp add: remote_defs)
  from fetchFileList_called_unless_cache_current[where s=syncedState and ms=exampleModules, OF b h]
       fetchFileList_called_unless_cache_current[where s=staleState and ms=exampleModules, OF b h]
       fetchFileList_called_unless_cache_current[where s=freshState and ms=exampleModules, OF b h]
  show ?thesis by (simp add: remote_defs)
qed

text \<open>
  C1 without the truthiness test of line 121 fails: here the cached hash equals the
  resolved hash and the cache is non-empty, yet the listing is fetched, because the
  hash is the empty string.
\<close>

theorem empty_hash_counterexample:
  "lastCommitHash emptyHashState = Some []
   \<and> fetchLastCommitHash emptyHashRemote = Inr []
   \<and> fileCache emptyHashState \<noteq> []
   \<and> callsOf exampleModules emptyHashRemote emptyHashState =
       [FetchLastCommitHash, FetchFileList, SetLastCommitHash [], DeleteEntries [''README.txt'']]"
  by (simp add: sync_defs remote_defs emptyHashRemote_def emptyHashState_def example_defs
      classify_defs)

text \<open>
  Claim C7. In a run that takes the full-refresh path and gets its listing, the
  resolved hash is the value of \<open>last_commit_hash\<close> when the run ends, whatever
  \<open>fetchFileContents\<close> answers (the statement does not depend on it). In the log the
  write follows the call of \<open>fetchFileList\<close> directly; before it there are only the
  branch and hash calls, so every call of \<open>fetchFileContents\<close> comes after it.
\<close>

theorem lastCommitHash_set_before_fetchFileContents:
  assumes "repositoryBranch s = [] \<longrightarrow> fetchDefaultBranchName cs = Inr b"
    and "fetchLastCommitHash cs = Inr h"
    and "\<not> cacheIsCurrent (lastCommitHash s) h (fileCache s)"
    and "fetchFileList cs = Inr files"
  shows "lastCommitHash (snd (fetchAndParseFiles ms cs s)) = Some h
    \<and> (\<exists>before rest. callsOf ms cs s = before @ [FetchFileList, SetLastCommitHash h] @ rest
          \<and> before = (if repositoryBranch s = [] then [FetchDefaultBranchName] else [])
                       @ [FetchLastCommitHash]
          \<and> (\<forall>fs. FetchFileContents fs \<notin> set before))"
proof -
  let ?s2 = "s\<lparr>repositoryBranch := (if repositoryBranch s = [] then b else repositoryBranch s),
          calls := calls s @ (if repositoryBranch s = [] then [FetchDefaultBranchName] else [])
                     @ [FetchLastCommitHash]\<rparr>"
  let ?fl = "createFileList (getFileExtension ms) (allEntryFolders ms) (allAssetFolders ms) files"
  let ?s3 = "?s2\<lparr>calls := calls ?s2 @ [FetchFileList], lastCommitHash := Some h,
                 calls := (calls ?s2 @ [FetchFileList]) @ [SetLastCommitHash h]\<rparr>"
  have sel: "selectFileList ms cs (lastCommitHash s) (fileCache s) h ?s2 = (Inr ?fl, ?s3)"
    using assms(3,4) by (simp add: selectFileList_def Let_def)
  show ?thesis
  proof (cases "count ?fl = 0")
    case True
    then show ?thesis
      by (simp add: callsOf_def fetchAndParseFiles_resolved[OF assms(1,2)] sel)
  next
    case False
    from loadFiles_calls[of ms cs "fileCache s" ?fl ?s3] obtain evs where
      evs: "calls (snd (loadFiles ms cs (fileCache s) ?fl ?s3)) = calls ?s3 @ evs"
      by blast
    with False show ?thesis
      by (simp add: callsOf_def fetchAndParseFiles_resolved[OF assms(1,2)] sel)
  qed
qed

text \<open>
  The content fetch is rejected and the run fails; the hash is written all the same,
  fourth in the log, and the rejected call is the fifth.
\<close>

theorem lastCommitHash_set_before_fetchFileContents_witness:
  "fetchLastCommitHash failingRemote = Inr ''c1''
   \<and> \<not> cacheIsCurrent (lastCommitHash freshState) ''c1'' (fileCache freshState)
   \<and> fst (fetchAndParseFiles exampleModules failingRemote freshState) = Inl (Rejected ''network'')
   \<and> lastCommitHash (snd (fetchAndParseFiles exampleModules failingRemote freshState)) = Some ''c1''
   \<and> take 4 (callsOf exampleModules failingRemote freshState) =
        [FetchDefaultBranchName, FetchLastCommitHash, FetchFileList, SetLastCommitHash ''c1'']
   \<and> length (callsOf exampleModules failingRemote freshState) = 5"
proof -
  have b: "repositoryBranch freshState = [] \<longrightarrow> fetchDefaultBranchName failingRemote = Inr ''main''"
    by (simp add: remote_defs failingRemote_def)
  have h: "fetchLastCommitHash failingRemote = Inr ''c1''"
    by (simp add: remote_defs failingRemote_def)
  have c: "\<not> cacheIsCurrent (lastCommitHash freshState) ''c1'' (fileCache freshState)"
    by (simp add: remote_defs failingRemote_def cacheIsCurrent_def)
  have l: "fetchFileList failingRemote = Inr [plainFile ''content/posts/a.md'' ''1'',
                           plainFile ''static/images/cat.png'' ''2'']"
    by (simp add: remote_defs failingRemote_def)
  from lastCommitHash_set_before_fetchFileContents[where ms=exampleModules, OF b h c l]
  show ?thesis
    by (simp add: sync_defs remote_defs failingRemote_def example_defs classify_defs)
qed

text \<open>
  Claim C9. When the branch and the hash are resolved, the file list is obtained (from
  the cache or from \<open>fetchFileList\<close>) and its count is 0, the run returns normally,
  \<open>allEntries\<close> and \<open>allAssets\<close> are empty, \<open>dataLoaded\<close> is true, and
  \<open>fetchFileContents\<close> is not called.
\<close>

theorem empty_file_list_is_terminal:
  assumes "repositoryBranch s = [] \<longrightarrow> fetchDefaultBranchName cs = Inr b"
    and "fetchLastCommitHash cs = Inr h"
    and "(if cacheIsCurrent (lastCommitHash s) h (fileCache s)
          then Inr (map cachedFile (fileCache s)) else fetchFileList cs) = Inr files"
    and "count (createFileList (getFileExtension ms) (allEntryFolders ms) (allAssetFolders ms)
           files) = 0"
  shows "fst (fetchAndParseFiles ms cs s) = Inr ()
    \<and> allEntries (snd (fetchAndParseFiles ms cs s)) = []
    \<and> allAssets (snd (fetchAndParseFiles ms cs s)) = []
    \<and> dataLoaded (snd (fetchAndParseFiles ms cs s)) = True
    \<and> (\<forall>fs. FetchFileContents fs \<notin> set (callsOf ms cs s))"
  using assms(3,4)
  by (auto simp: callsOf_def fetchAndParseFiles_resolved[OF assms(1,2)] selectFileList_def Let_def
      split: if_splits)

text \<open>An empty listing: the entry of an earlier run is unpublished and the run succeeds.\<close>

theorem empty_file_list_is_terminal_witness:
  "fetchLastCommitHash emptyRemote = Inr ''c1''
   \<and> fetchFileList emptyRemote = Inr []
   \<and> count (createFileList markdown [postsFolder] [imagesFolder] []) = 0
   \<and> fetchAndParseFiles exampleModules emptyRemote
         (freshState\<lparr>allEntries :=
            [listItem (plainFile ''content/posts/a.md'' ''1'') entry (EntryFolder postsFolder)]\<rparr>) =
       (Inr (), freshState\<lparr>repositoryBranch := ''main'', lastCommitHash := Some ''c1'',
                  dataLoaded := True,
                  calls := [FetchDefaultBranchName, FetchLastCommitHash, FetchFileList,
                            SetLastCommitHash ''c1'']\<rparr>)"
proof -
  let ?s = "freshState\<lparr>allEntries :=
            [listItem (plainFile ''content/posts/a.md'' ''1'') entry (EntryFolder postsFolder)]\<rparr>"
  have b: "repositoryBranch ?s = [] \<longrightarrow> fetchDefaultBranchName emptyRemote = Inr ''main''"
    by (simp add: remote_defs emptyRemote_def)
  have h: "fetchLastCommitHash emptyRemote = Inr ''c1''"
    by (simp add: remote_defs emptyRemote_def)
  have l: "(if cacheIsCurrent (lastCommitHash ?s) ''c1'' (fileCache ?s)
          then Inr (map cachedFile (fileCache ?s)) else fetchFileList emptyRemote) = Inr []"
    by (simp add: remote_defs emptyRemote_def cacheIsCurrent_def)
  have c: "count (createFileList (getFileExtension exampleModules) (allEntryFolders exampleModules)
      (allAssetFolders exampleModules) []) = 0"
    by (simp add: createFileList_def)
  from empty_file_list_is_terminal[OF b h l c]
  show ?thesis
    by (simp add: sync_defs remote_defs emptyRemote_def example_defs classify_defs)
qed

lemma completed_run_resolved:
  assumes "fst (fetchAndParseFiles ms cs s) = Inr ()"
  shows "\<exists>b. repositoryBranch s = [] \<longrightarrow> fetchDefaultBranchName cs = Inr b"
  using assms
  by (cases "fetchDefaultBranchName cs")
     (auto simp: fetchAndParseFiles_def resolveBranch_def Let_def)

lemma loadFiles_unfold:
  fixes s :: "('e, 'a) app_state" and ce :: "(string \<times> file_data) list" and fl :: file_list
  defines "restored \<equiv> map (restoreCached (fromEntries ce)) (allFiles fl)"
  defines "fetching \<equiv> filter (\<lambda>f. meta f = None) restored"
  defines "unused \<equiv> filter (\<lambda>p. p \<notin> set (map path restored)) (objectKeys ce)"
  shows "loadFiles ms cs ce fl s =
     (case (if fetching \<noteq> [] then fetchFileContents cs fetching else Inr []) of
        Inl e \<Rightarrow> (Inl e, if fetching \<noteq> [] then s\<lparr>calls := calls s @ [FetchFileContents fetching]\<rparr> else s)
      | Inr fetched \<Rightarrow>
          (Inr (),
           (if unused \<noteq> [] then deleteEntries unused else (\<lambda>s. s))
             ((if fetching \<noteq> [] then saveEntries fetched else (\<lambda>s. s))
                ((if fetching \<noteq> [] then s\<lparr>calls := calls s @ [FetchFileContents fetching]\<rparr> else s)
                   \<lparr>allEntries := parseEntryFiles ms (map (mergeEntry (fromEntries fetched))
                                   (map (restoreCached (fromEntries ce)) (entryFiles fl))),
                    allAssets := parseAssetFiles ms (map (mergeAsset (fromEntries fetched))
                                   (map (restoreCached (fromEntries ce)) (assetFiles fl))),
                    dataLoaded := True\<rparr>))))"
  unfolding restored_def fetching_def unused_def loadFiles_def Let_def
  by (simp del: length_filter_map split: sum.splits)

lemma set_unused_paths:
  "set (filter (\<lambda>p. p \<notin> set (map path (map (restoreCached m) fs))) (objectKeys ce))
     = fst ` set ce - path ` set fs"
  by (auto simp: image_iff)

lemma filter_not_in_empty:
  "U = {} \<Longrightarrow> filter (\<lambda>e. fst e \<notin> U) xs = xs"
  by simp

lemma loadFiles_fileCache:
  fixes s :: "('e, 'a) app_state"
  assumes "fst (loadFiles ms cs ce fl s) = Inr ()"
  shows "fileCache (snd (loadFiles ms cs ce fl s)) =
     filter (\<lambda>e. fst e \<notin> fst ` set ce - path ` set (allFiles fl))
       (if filter (\<lambda>f. meta f = None) (map (restoreCached (fromEntries ce)) (allFiles fl)) = []
        then fileCache s
        else foldl (\<lambda>c e. putEntry (fst e) (snd e) c) (fileCache s)
               (case fetchFileContents cs
                       (filter (\<lambda>f. meta f = None) (map (restoreCached (fromEntries ce)) (allFiles fl))) of
                  Inr fetched \<Rightarrow> fetched | Inl e \<Rightarrow> []))"
proof -
  define fetching where
    "fetching = filter (\<lambda>f. meta f = None) (map (restoreCached (fromEntries ce)) (allFiles fl))"
  define unused where
    "unused = filter (\<lambda>p. p \<notin> set (map path (map (restoreCached (fromEntries ce)) (allFiles fl))))
                (objectKeys ce)"
  define U where "U = fst ` set ce - path ` set (allFiles fl)"
  have u: "set unused = U"
    unfolding unused_def U_def by (rule set_unused_paths)
  have e: "filter (\<lambda>e. fst e \<notin> U) xs = xs" if "unused = []"
    for xs :: "(string \<times> file_data) list"
    using that u by (intro filter_not_in_empty) simp
  note unf = loadFiles_unfold[of ms cs ce fl s, folded fetching_def unused_def]
  show ?thesis
    using assms unfolding unf fetching_def[symmetric] U_def[symmetric]
    by (auto simp: saveEntries_def deleteEntries_def u e split: sum.splits if_splits)
qed

text \<open>
  Lines 186-197 on the path that reaches them: after a run that returns normally and
  whose file list is not empty, no path that had a cache record before the run and is
  not the path of a file of \<open>allFiles\<close> has a record in the cache.
\<close>

theorem unused_cache_records_deleted:
  assumes "fst (fetchAndParseFiles ms cs s) = Inr ()"
    and "fetchLastCommitHash cs = Inr h"
    and "(if cacheIsCurrent (lastCommitHash s) h (fileCache s)
          then Inr (map cachedFile (fileCache s)) else fetchFileList cs) = Inr files"
    and "count (createFileList (getFileExtension ms) (allEntryFolders ms) (allAssetFolders ms)
           files) \<noteq> 0"
  shows "\<forall>p\<in>fst ` set (fileCache s).
           p \<notin> path ` set (allFiles (createFileList (getFileExtension ms) (allEntryFolders ms)
                                       (allAssetFolders ms) files))
           \<longrightarrow> p \<notin> fst ` set (fileCache (snd (fetchAndParseFiles ms cs s)))"
proof -
  from completed_run_resolved[OF assms(1)] obtain b where
    b: "repositoryBranch s = [] \<longrightarrow> fetchDefaultBranchName cs = Inr b" by blast
  let ?fl = "createFileList (getFileExtension ms) (allEntryFolders ms) (allAssetFolders ms) files"
  from assms(3,4) obtain s3 where
    run: "fetchAndParseFiles ms cs s = loadFiles ms cs (fileCache s) ?fl s3"
    by (auto simp: fetchAndParseFiles_resolved[OF b assms(2)] selectFileList_def Let_def
        split: if_splits)
  from assms(1) run have ok: "fst (loadFiles ms cs (fileCache s) ?fl s3) = Inr ()" by simp
  have out: "p \<notin> fst ` set (filter (\<lambda>e. fst e \<notin> U) xs)" if "p \<in> U"
    for p U and xs :: "(string \<times> file_data) list"
    using that by auto
  show ?thesis
    unfolding run loadFiles_fileCache[OF ok]
    by (intro ballI impI out) simp
qed

lemma fetchAndParseFiles_loadFiles:
  assumes "repositoryBranch s = [] \<longrightarrow> fetchDefaultBranchName cs = Inr b"
    and "fetchLastCommitHash cs = Inr h"
    and "(if cacheIsCurrent (lastCommitHash s) h (fileCache s)
          then Inr (map cachedFile (fileCache s)) else fetchFileList cs) = Inr files"
    and "count (createFileList (getFileExtension ms) (allEntryFolders ms) (allAssetFolders ms)
           files) \<noteq> 0"
  shows "\<exists>s3 evs. fetchAndParseFiles ms cs s =
           loadFiles ms cs (fileCache s)
             (createFileList (getFileExtension ms) (allEntryFolders ms) (allAssetFolders ms) files) s3
         \<and> fileCache s3 = fileCache s
         \<and> calls s3 = calls s @ evs \<and> (\<forall>fs. FetchFileContents fs \<notin> set evs)
         \<and> repositoryBranch s3 = (if repositoryBranch s = [] then b else repositoryBranch s)
         \<and> lastCommitHash s3 = Some h"
  using assms(3,4)
  by (auto simp: fetchAndParseFiles_resolved[OF assms(1,2)] selectFileList_def Let_def
      cacheIsCurrent_iff split: if_splits)

text \<open>
  Claim C4, as the code has it. When the branch, the hash and the file list are
  obtained, the files still without \<open>meta\<close> after the cache is restored are not none,
  and \<open>fetchFileContents\<close> answers for them, the run returns normally, \<open>saveEntries\<close> is
  called with what was fetched, and at the end the cache holds, for every file that was
  asked for and answered, the record that \<open>fetchFileContents\<close> returned for it, as it
  was returned: its \<open>sha\<close>, \<open>meta\<close>, text and size. Line 191 stores the answer and
  nothing of the file list, so the \<open>sha\<close> of the record is the \<open>sha\<close> of the file when
  the collaborator answered with the \<open>sha\<close> of the file it was asked for.
\<close>

theorem fetched_files_saved_to_cache:
  assumes "repositoryBranch s = [] \<longrightarrow> fetchDefaultBranchName cs = Inr b"
    and "fetchLastCommitHash cs = Inr h"
    and "(if cacheIsCurrent (lastCommitHash s) h (fileCache s)
          then Inr (map cachedFile (fileCache s)) else fetchFileList cs) = Inr files"
    and "fetchingFiles = filter (\<lambda>f. meta f = None)
           (map (restoreCached (fromEntries (fileCache s)))
              (allFiles (createFileList (getFileExtension ms) (allEntryFolders ms)
                           (allAssetFolders ms) files)))"
    and "fetchingFiles \<noteq> []"
    and "fetchFileContents cs fetchingFiles = Inr fetched"
  shows "fst (fetchAndParseFiles ms cs s) = Inr ()
    \<and> SaveEntries fetched \<in> set (callsOf ms cs s)
    \<and> (\<forall>f\<in>set fetchingFiles. \<forall>d. fromEntries fetched (path f) = Some d \<longrightarrow>
          map_of (fileCache (snd (fetchAndParseFiles ms cs s))) (path f) = Some d
          \<and> (sha d = sha f \<longrightarrow>
               map_option sha (map_of (fileCache (snd (fetchAndParseFiles ms cs s))) (path f))
                 = Some (sha f)))"
proof -
  let ?fl = "createFileList (getFileExtension ms) (allEntryFolders ms) (allAssetFolders ms) files"
  from assms(4,5) have "allFiles ?fl \<noteq> []" by auto
  then have cnt: "count ?fl \<noteq> 0" by (simp add: count_createFileList)
  from fetchAndParseFiles_loadFiles[OF assms(1,2,3) cnt] obtain s3 evs where
    run: "fetchAndParseFiles ms cs s = loadFiles ms cs (fileCache s) ?fl s3"
    and s3: "fileCache s3 = fileCache s" "calls s3 = calls s @ evs"
    by blast
  note unf = loadFiles_unfold[of ms cs "fileCache s" ?fl s3, folded assms(4)]
  have res: "fst (fetchAndParseFiles ms cs s) = Inr ()"
    unfolding run unf using assms(5,6) by simp
  have log: "SaveEntries fetched \<in> set (callsOf ms cs s)"
    unfolding callsOf_def run unf using assms(5,6) s3
    by (simp add: saveEntries_def deleteEntries_def)
  have cache: "fileCache (snd (fetchAndParseFiles ms cs s)) =
     filter (\<lambda>e. fst e \<notin> fst ` set (fileCache s) - path ` set (allFiles ?fl))
       (foldl (\<lambda>c e. putEntry (fst e) (snd e) c) (fileCache s) fetched)"
    using loadFiles_fileCache[of ms cs "fileCache s" ?fl s3] res assms(5,6) s3(1)
    unfolding run assms(4) by simp
  have saved: "map_of (fileCache (snd (fetchAndParseFiles ms cs s))) (path f) = Some d"
    if "f \<in> set fetchingFiles" and "fromEntries fetched (path f) = Some d" for f d
  proof -
    define U where "U = fst ` set (fileCache s) - path ` set (allFiles ?fl)"
    define X where "X = foldl (\<lambda>c e. putEntry (fst e) (snd e) c) (fileCache s) fetched"
    from that(1) have "path f \<in> path ` set (allFiles ?fl)"
      unfolding assms(4) by (auto simp: image_iff)
    then have "path f \<notin> U" by (simp add: U_def)
    with map_of_filter_key[of "\<lambda>k. k \<notin> U" X "path f"]
    have 1: "map_of (filter (\<lambda>e. fst e \<notin> U) X) (path f) = map_of X (path f)" by simp
    from that(2) have 2: "map_of X (path f) = Some d"
      by (simp add: X_def map_of_foldl_update fromEntries_def map_add_def)
    show ?thesis
      unfolding cache U_def[symmetric] X_def[symmetric] 1 2 ..
  qed
  from res log saved show ?thesis by simp
qed

text \<open>Both files of the listing are fetched and their records are in the cache afterwards.\<close>

theorem fetched_files_saved_to_cache_witness:
  "fetchLastCommitHash exampleRemote = Inr ''c1''
   \<and> \<not> cacheIsCurrent (lastCommitHash staleState) ''c1'' (fileCache staleState)
   \<and> fst (fetchAndParseFiles exampleModules exampleRemote staleState) = Inr ()
   \<and> fileCache (snd (fetchAndParseFiles exampleModules exampleRemote staleState)) =
       [(''content/posts/a.md'', fetchedData ''1''), (''static/images/cat.png'', fetchedData ''2'')]
   \<and> map_of (fileCache (snd (fetchAndParseFiles exampleModules exampleRemote staleState)))
        ''content/posts/a.md'' = Some (fetchedData ''1'')
   \<and> sha (plainFile ''content/posts/a.md'' ''1'') = ''1''
   \<and> map_option sha
        (map_of (fileCache (snd (fetchAndParseFiles exampleModules exampleRemote staleState)))
           ''content/posts/a.md'') = Some ''1''"
proof -
  let ?a = "listItem (plainFile ''content/posts/a.md'' ''1'') entry (EntryFolder postsFolder)"
  let ?c = "listItem (plainFile ''static/images/cat.png'' ''2'') asset (AssetFolder imagesFolder)"
  have b: "repositoryBranch staleState = [] \<longrightarrow> fetchDefaultBranchName exampleRemote = Inr ''main''"
    by (simp add: remote_defs)
  have h: "fetchLastCommitHash exampleRemote = Inr ''c1''"
    by (simp add: remote_defs)
  have l: "(if cacheIsCurrent (lastCommitHash staleState) ''c1'' (fileCache staleState)
            then Inr (map cachedFile (fileCache staleState)) else fetchFileList exampleRemote)
           = Inr [plainFile ''content/posts/a.md'' ''1'', plainFile ''static/images/cat.png'' ''2'']"
    by (simp add: remote_defs cacheIsCurrent_def)
  have f: "[?a, ?c] = filter (\<lambda>f. meta f = None)
           (map (restoreCached (fromEntries (fileCache staleState)))
              (allFiles (createFileList (getFileExtension exampleModules)
                 (allEntryFolders exampleModules) (allAssetFolders exampleModules)
                 [plainFile ''content/posts/a.md'' ''1'', plainFile ''static/images/cat.png'' ''2''])))"
    by (simp add: sync_defs remote_defs example_defs classify_defs)
  have n: "[?a, ?c] \<noteq> []" by simp
  have c: "fetchFileContents exampleRemote [?a, ?c] =
      Inr [(''content/posts/a.md'', fetchedData ''1''), (''static/images/cat.png'', fetchedData ''2'')]"
    by (simp add: remote_defs listItem_def plainFile_def)
  from fetched_files_saved_to_cache[OF b h l f n c]
  show ?thesis
    by (simp add: sync_defs remote_defs example_defs classify_defs)
qed

text \<open>
  C4 for every collaborator fails: here \<open>fetchFileContents\<close> answers the file of
  \<open>sha\<close> 1 with a record of another \<open>sha\<close>, and that record is what the cache holds at
  the end of the successful run, not the content hash of the file.
\<close>

theorem other_sha_saved_counterexample:
  "map (\<lambda>f. (path f, sha f))
      (entryFiles (createFileList markdown [postsFolder] [imagesFolder]
         [plainFile ''content/posts/a.md'' ''1'', plainFile ''static/images/cat.png'' ''2'']))
     = [(''content/posts/a.md'', ''1'')]
   \<and> fst (fetchAndParseFiles exampleModules otherShaRemote staleState) = Inr ()
   \<and> map (\<lambda>e. (fst e, sha (snd e)))
        (fileCache (snd (fetchAndParseFiles exampleModules otherShaRemote staleState)))
     = [(''content/posts/a.md'', ''other''), (''static/images/cat.png'', ''other'')]"
  by (simp add: sync_defs remote_defs otherShaRemote_def example_defs classify_defs)

text \<open>The record of \<open>old.md\<close>, which the listing no longer has, is deleted.\<close>

theorem unused_cache_records_deleted_witness:
  "fst (fetchAndParseFiles exampleModules exampleRemote staleState) = Inr ()
   \<and> ''content/posts/old.md'' \<in> fst ` set (fileCache staleState)
   \<and> map path (allFiles (createFileList markdown [postsFolder] [imagesFolder]
        [plainFile ''content/posts/a.md'' ''1'', plainFile ''static/images/cat.png'' ''2'']))
       = [''content/posts/a.md'', ''static/images/cat.png'']
   \<and> ''content/posts/old.md''
        \<notin> fst ` set (fileCache (snd (fetchAndParseFiles exampleModules exampleRemote staleState)))"
proof -
  have r: "fst (fetchAndParseFiles exampleModules exampleRemote staleState) = Inr ()"
    by (simp add: sync_defs remote_defs example_defs classify_defs)
  have h: "fetchLastCommitHash exampleRemote = Inr ''c1''"
    by (simp add: remote_defs)
  have l: "(if cacheIsCurrent (lastCommitHash staleState) ''c1'' (fileCache staleState)
            then Inr (map cachedFile (fileCache staleState)) else fetchFileList exampleRemote)
           = Inr [plainFile ''content/posts/a.md'' ''1'', plainFile ''static/images/cat.png'' ''2'']"
    by (simp add: remote_defs cacheIsCurrent_def)
  have c: "count (createFileList (getFileExtension exampleModules)
                 (allEntryFolders exampleModules) (allAssetFolders exampleModules)
                 [plainFile ''content/posts/a.md'' ''1'', plainFile ''static/images/cat.png'' ''2'']) \<noteq> 0"
    by (simp add: sync_defs remote_defs example_defs classify_defs)
  from unused_cache_records_deleted[OF r h l c]
  show ?thesis
    by (simp add: sync_defs remote_defs example_defs classify_defs)
qed

text \<open>
  Claim C5 says that after every completed run the records of paths that are no longer
  in \<open>allFiles\<close> are deleted, and lines 186-197 do so. A run whose file list is empty
  returns at line 137 and never reaches them. Here the listing has become empty: the
  run succeeds and publishes nothing, the record of \<open>old.md\<close> stays, and the next run,
  which finds the stored hash current and the cache non-empty, builds its file list
  from that record and publishes \<open>old.md\<close> again.
\<close>

theorem stale_record_kept_and_published_again:
  "fetchFileList emptyRemote = Inr []
   \<and> ''content/posts/old.md'' \<in> fst ` set (fileCache staleState)
   \<and> allFiles (createFileList markdown [postsFolder] [imagesFolder] []) = []
   \<and> fst (fetchAndParseFiles exampleModules emptyRemote staleState) = Inr ()
   \<and> allEntries (snd (fetchAndParseFiles exampleModules emptyRemote staleState)) = []
   \<and> map fst (fileCache (snd (fetchAndParseFiles exampleModules emptyRemote staleState)))
        = [''content/posts/old.md'']
   \<and> callsOf exampleModules emptyRemote
        (snd (fetchAndParseFiles exampleModules emptyRemote staleState)) = [FetchLastCommitHash]
   \<and> map path (allEntries (snd (fetchAndParseFiles exampleModules emptyRemote
        (snd (fetchAndParseFiles exampleModules emptyRemote staleState)))))
        = [''content/posts/old.md'']"
proof -
  have r1: "fetchAndParseFiles exampleModules emptyRemote staleState =
      (Inr (), staleState\<lparr>lastCommitHash := Some ''c1'', dataLoaded := True,
                 calls := [FetchLastCommitHash, FetchFileList, SetLastCommitHash ''c1'']\<rparr>)"
    by (simp add: sync_defs remote_defs emptyRemote_def example_defs classify_defs)
  show ?thesis
    unfolding r1
    by (simp add: sync_defs remote_defs emptyRemote_def example_defs classify_defs)
qed

subsection \<open>Two runs on a populated cache\<close>

lemma createFileList_eq:
  "createFileList gfe efs afs files =
     \<lparr>entryFiles = List.map_filter (entryItemOf gfe efs) files,
      assetFiles = List.map_filter (assetItemOf gfe efs afs) files,
      allFiles = List.map_filter (entryItemOf gfe efs) files
                 @ List.map_filter (assetItemOf gfe efs afs) files,
      count = length (List.map_filter (entryItemOf gfe efs) files
                 @ List.map_filter (assetItemOf gfe efs afs) files)\<rparr>"
  by (simp add: createFileList_def foldl_classifyFile Let_def)

lemma allFiles_item_source:
  assumes "x \<in> set (allFiles (createFileList gfe efs afs files))"
  shows "\<exists>g\<in>set files. path x = path g \<and> meta x = meta g
           \<and> (entryItemOf gfe efs g = Some x \<or> assetItemOf gfe efs afs g = Some x)"
  using assms
  by (auto simp: createFileList_eq set_map_filter entryItemOf_def assetItemOf_def listItem_def)

lemma meta_restoreCached: "meta f \<noteq> None \<Longrightarrow> meta (restoreCached m f) \<noteq> None"
  by (auto simp: restoreCached_def objectAssign_def nullish_def split: option.splits)

lemma no_fetch_from_full_cache:
  assumes "\<forall>e\<in>set ce. meta (snd e) \<noteq> None"
  shows "filter (\<lambda>f. meta f = None)
           (map (restoreCached m) (allFiles (createFileList gfe efs afs (map cachedFile ce)))) = []"
proof -
  have "meta (restoreCached m x) \<noteq> None"
    if "x \<in> set (allFiles (createFileList gfe efs afs (map cachedFile ce)))" for x
  proof -
    from allFiles_item_source[OF that] obtain g where
      g: "g \<in> set (map cachedFile ce)" "meta x = meta g" by blast
    with assms have "meta g \<noteq> None" by (auto simp: cachedFile_def)
    with g(2) show ?thesis by (simp add: meta_restoreCached)
  qed
  then show ?thesis by (simp add: filter_empty_conv)
qed

lemma restoreCached_cong:
  "m1 (path f) = m2 (path f) \<Longrightarrow> restoreCached m1 f = restoreCached m2 f"
  by (simp add: restoreCached_def)

lemma fromEntries_filter:
  "fromEntries (filter (\<lambda>e. P (fst e)) ce) k = (if P k then fromEntries ce k else None)"
  unfolding fromEntries_def rev_filter by (rule map_of_filter_key)

lemma map_filter_filter:
  assumes "\<And>x y. x \<in> set xs \<Longrightarrow> f x = Some y \<Longrightarrow> P x"
  shows "List.map_filter f (filter P xs) = List.map_filter f xs"
  using assms by (induction xs) (auto split: option.splits)

lemma createFileList_filter_used:
  assumes "\<And>x. x \<in> set (allFiles (createFileList gfe efs afs files)) \<Longrightarrow> Q (path x)"
  shows "createFileList gfe efs afs (filter (\<lambda>f. Q (path f)) files) = createFileList gfe efs afs files"
proof -
  have e: "Q (path g)" if "g \<in> set files" "entryItemOf gfe efs g = Some y" for g y
  proof -
    from that have "y \<in> set (allFiles (createFileList gfe efs afs files))"
      by (auto simp: createFileList_eq set_map_filter)
    moreover from that(2) have "path y = path g" by (auto simp: entryItemOf_def)
    ultimately show ?thesis using assms by metis
  qed
  have a: "Q (path g)" if "g \<in> set files" "assetItemOf gfe efs afs g = Some y" for g y
  proof -
    from that have "y \<in> set (allFiles (createFileList gfe efs afs files))"
      by (auto simp: createFileList_eq set_map_filter)
    moreover from that(2) have "path y = path g" by (auto simp: assetItemOf_def)
    ultimately show ?thesis using assms by metis
  qed
  show ?thesis
    unfolding createFileList_eq
    by (simp add: map_filter_filter[of files "entryItemOf gfe efs" "\<lambda>f. Q (path f)", OF e]
        map_filter_filter[of files "assetItemOf gfe efs afs" "\<lambda>f. Q (path f)", OF a])
qed

lemma current_cache_run:
  fixes s :: "('e, 'a) app_state"
  assumes "repositoryBranch s = [] \<longrightarrow> fetchDefaultBranchName cs = Inr b"
    and "fetchLastCommitHash cs = Inr h"
    and "lastCommitHash s = Some h" and "h \<noteq> []" and "fileCache s \<noteq> []"
    and "\<forall>e\<in>set (fileCache s). meta (snd e) \<noteq> None"
    and "fl = createFileList (getFileExtension ms) (allEntryFolders ms) (allAssetFolders ms)
                (map cachedFile (fileCache s))"
  shows "fst (fetchAndParseFiles ms cs s) = Inr ()
    \<and> allEntries (snd (fetchAndParseFiles ms cs s)) =
        (if count fl = 0 then []
         else parseEntryFiles ms (map (mergeEntry (fromEntries []))
                (map (restoreCached (fromEntries (fileCache s))) (entryFiles fl))))
    \<and> allAssets (snd (fetchAndParseFiles ms cs s)) =
        (if count fl = 0 then []
         else parseAssetFiles ms (map (mergeAsset (fromEntries []))
                (map (restoreCached (fromEntries (fileCache s))) (assetFiles fl))))
    \<and> dataLoaded (snd (fetchAndParseFiles ms cs s))
    \<and> fileCache (snd (fetchAndParseFiles ms cs s)) =
        (if count fl = 0 then fileCache s
         else filter (\<lambda>e. fst e \<notin> fst ` set (fileCache s) - path ` set (allFiles fl)) (fileCache s))
    \<and> lastCommitHash (snd (fetchAndParseFiles ms cs s)) = Some h
    \<and> repositoryBranch (snd (fetchAndParseFiles ms cs s)) =
        (if repositoryBranch s = [] then b else repositoryBranch s)
    \<and> (\<forall>fs. FetchFileContents fs \<notin> set (callsOf ms cs s))"
proof -
  have cur: "cacheIsCurrent (lastCommitHash s) h (fileCache s)"
    using assms(3,4,5) by (simp add: cacheIsCurrent_iff)
  show ?thesis
  proof (cases "count fl = 0")
    case True
    with cur assms(3) show ?thesis
      unfolding assms(7)
      by (simp add: callsOf_def fetchAndParseFiles_resolved[OF assms(1,2)] selectFileList_def)
  next
    case False
    from cur have src: "(if cacheIsCurrent (lastCommitHash s) h (fileCache s)
          then Inr (map cachedFile (fileCache s)) else fetchFileList cs)
          = Inr (map cachedFile (fileCache s))" by simp
    from fetchAndParseFiles_loadFiles[OF assms(1,2) src False[unfolded assms(7)]]
    obtain s3 evs where
      run: "fetchAndParseFiles ms cs s = loadFiles ms cs (fileCache s) fl s3"
      and s3: "fileCache s3 = fileCache s" "calls s3 = calls s @ evs"
        "\<forall>fs. FetchFileContents fs \<notin> set evs"
        "repositoryBranch s3 = (if repositoryBranch s = [] then b else repositoryBranch s)"
        "lastCommitHash s3 = Some h"
      unfolding assms(7) by blast
    have nf: "filter (\<lambda>f. meta f = None)
        (map (restoreCached (fromEntries (fileCache s))) (allFiles fl)) = []"
      unfolding assms(7) by (rule no_fetch_from_full_cache[OF assms(6)])
    note unf = loadFiles_unfold[of ms cs "fileCache s" fl s3, unfolded nf]
    have ok: "fst (loadFiles ms cs (fileCache s) fl s3) = Inr ()"
      unfolding unf by simp
    have cache: "fileCache (snd (fetchAndParseFiles ms cs s)) =
        filter (\<lambda>e. fst e \<notin> fst ` set (fileCache s) - path ` set (allFiles fl)) (fileCache s)"
      unfolding run loadFiles_fileCache[OF ok] nf using s3(1) by simp
    have rest: "fst (fetchAndParseFiles ms cs s) = Inr ()
      \<and> allEntries (snd (fetchAndParseFiles ms cs s)) =
          parseEntryFiles ms (map (mergeEntry (fromEntries []))
                (map (restoreCached (fromEntries (fileCache s))) (entryFiles fl)))
      \<and> allAssets (snd (fetchAndParseFiles ms cs s)) =
          parseAssetFiles ms (map (mergeAsset (fromEntries []))
                (map (restoreCached (fromEntries (fileCache s))) (assetFiles fl)))
      \<and> dataLoaded (snd (fetchAndParseFiles ms cs s))
      \<and> lastCommitHash (snd (fetchAndParseFiles ms cs s)) = Some h
      \<and> repositoryBranch (snd (fetchAndParseFiles ms cs s)) =
          (if repositoryBranch s = [] then b else repositoryBranch s)
      \<and> (\<forall>fs. FetchFileContents fs \<notin> set (callsOf ms cs s))"
      unfolding callsOf_def run unf using s3
      by (simp add: deleteEntries_def)
    from False rest cache show ?thesis by simp
  qed
qed

text \<open>
  The cache path twice: when the stored hash is the non-empty hash the remote resolves
  to and the file cache is not empty, the second run reads the cache the first run left
  and publishes what the first run published.
\<close>

lemma cache_path_runs_agree:
  fixes s :: "('e, 'a) app_state"
  assumes "repositoryBranch s = [] \<longrightarrow> fetchDefaultBranchName cs = Inr b"
    and "fetchLastCommitHash cs = Inr h"
    and "lastCommitHash s = Some h" and "h \<noteq> []" and "fileCache s \<noteq> []"
    and "\<forall>e\<in>set (fileCache s). meta (snd e) \<noteq> None"
    and "s1 = snd (fetchAndParseFiles ms cs s)"
    and "s2 = snd (fetchAndParseFiles ms cs s1)"
  shows "fst (fetchAndParseFiles ms cs s) = Inr ()
    \<and> fst (fetchAndParseFiles ms cs s1) = Inr ()
    \<and> allEntries s2 = allEntries s1
    \<and> allAssets s2 = allAssets s1
    \<and> dataLoaded s1 \<and> dataLoaded s2
    \<and> (\<forall>fs. FetchFileContents fs \<notin> set (callsOf ms cs s))
    \<and> (\<forall>fs. FetchFileContents fs \<notin> set (callsOf ms cs s1))"
proof -
  define fl where "fl = createFileList (getFileExtension ms) (allEntryFolders ms)
    (allAssetFolders ms) (map cachedFile (fileCache s))"
  define U where "U = fst ` set (fileCache s) - path ` set (allFiles fl)"
  note r1 = current_cache_run[OF assms(1-6) fl_def, folded assms(7) U_def]
  have branch1: "repositoryBranch s1 = [] \<longrightarrow> fetchDefaultBranchName cs = Inr b"
    using r1 assms(1) by (auto split: if_splits)
  have hash1: "lastCommitHash s1 = Some h" using r1 by simp
  have cache1: "fileCache s1 = (if count fl = 0 then fileCache s
      else filter (\<lambda>e. fst e \<notin> U) (fileCache s))"
    using r1 by simp
  have meta1: "\<forall>e\<in>set (fileCache s1). meta (snd e) \<noteq> None"
    unfolding cache1 using assms(6) by auto
  have used: "path x \<notin> U" if "x \<in> set (allFiles fl)" for x
    using that by (simp add: U_def)
  have nonempty1: "fileCache s1 \<noteq> []"
  proof (cases "count fl = 0")
    case True
    with cache1 assms(5) show ?thesis by simp
  next
    case False
    then obtain x where x: "x \<in> set (allFiles fl)"
      unfolding fl_def count_createFileList by (cases "allFiles (createFileList (getFileExtension ms)
        (allEntryFolders ms) (allAssetFolders ms) (map cachedFile (fileCache s)))") auto
    from allFiles_item_source[OF x[unfolded fl_def]] obtain e where
      e: "e \<in> set (fileCache s)" "path x = fst e"
      by (auto simp: cachedFile_def)
    with used[OF x] have "e \<in> set (filter (\<lambda>e. fst e \<notin> U) (fileCache s))" by simp
    then have "filter (\<lambda>e. fst e \<notin> U) (fileCache s) \<noteq> []" by (metis empty_iff empty_set)
    with False cache1 show ?thesis by simp
  qed
  have files1: "map cachedFile (fileCache s1) =
      (if count fl = 0 then map cachedFile (fileCache s)
       else filter (\<lambda>f. path f \<notin> U) (map cachedFile (fileCache s)))"
    unfolding cache1 by (simp add: filter_map comp_def cachedFile_def)
  have fl1: "createFileList (getFileExtension ms) (allEntryFolders ms) (allAssetFolders ms)
      (map cachedFile (fileCache s1)) = fl"
  proof (cases "count fl = 0")
    case True
    then show ?thesis by (simp add: files1 fl_def)
  next
    case False
    have "createFileList (getFileExtension ms) (allEntryFolders ms) (allAssetFolders ms)
        (filter (\<lambda>f. path f \<notin> U) (map cachedFile (fileCache s))) = fl"
      unfolding fl_def
      by (rule createFileList_filter_used) (use used in \<open>simp add: fl_def\<close>)
    with False show ?thesis by (simp add: files1)
  qed
  note r2 = current_cache_run[OF branch1 assms(2) hash1 assms(4) nonempty1 meta1 fl1[symmetric],
      folded assms(8)]
  have look: "fromEntries (fileCache s1) (path x) = fromEntries (fileCache s) (path x)"
    if "x \<in> set (allFiles fl)" for x
  proof (cases "count fl = 0")
    case True
    then show ?thesis by (simp add: cache1)
  next
    case False
    with used[OF that] fromEntries_filter[of "\<lambda>k. k \<notin> U" "fileCache s" "path x"]
    show ?thesis by (simp add: cache1)
  qed
  have all: "allFiles fl = entryFiles fl @ assetFiles fl"
    unfolding fl_def by (rule allFiles_createFileList)
  have re: "map (restoreCached (fromEntries (fileCache s1))) (entryFiles fl) =
      map (restoreCached (fromEntries (fileCache s))) (entryFiles fl)"
    by (rule map_cong[OF refl], rule restoreCached_cong, rule look) (simp add: all)
  have ra: "map (restoreCached (fromEntries (fileCache s1))) (assetFiles fl) =
      map (restoreCached (fromEntries (fileCache s))) (assetFiles fl)"
    by (rule map_cong[OF refl], rule restoreCached_cong, rule look) (simp add: all)
  have e1: "allEntries s1 = (if count fl = 0 then []
         else parseEntryFiles ms (map (mergeEntry (fromEntries []))
                (map (restoreCached (fromEntries (fileCache s))) (entryFiles fl))))"
    using r1 by blast
  have e2: "allEntries s2 = (if count fl = 0 then []
         else parseEntryFiles ms (map (mergeEntry (fromEntries []))
                (map (restoreCached (fromEntries (fileCache s1))) (entryFiles fl))))"
    using r2 by blast
  have a1: "allAssets s1 = (if count fl = 0 then []
         else parseAssetFiles ms (map (mergeAsset (fromEntries []))
                (map (restoreCached (fromEntries (fileCache s))) (assetFiles fl))))"
    using r1 by blast
  have a2: "allAssets s2 = (if count fl = 0 then []
         else parseAssetFiles ms (map (mergeAsset (fromEntries []))
                (map (restoreCached (fromEntries (fileCache s1))) (assetFiles fl))))"
    using r2 by blast
  have entries: "allEntries s2 = allEntries s1" unfolding e1 e2 re ..
  have assets: "allAssets s2 = allAssets s1" unfolding a1 a2 ra ..
  from r1 r2 entries assets show ?thesis by blast
qed

text \<open>
  The full-refresh path on a populated cache: every listed file that a folder manages is
  restored from its record (lines 144-148), so \<open>fetchingFiles\<close> of line 150 is empty.
\<close>

lemma fromEntries_SomeD: "fromEntries c p = Some d \<Longrightarrow> (p, d) \<in> set c"
  unfolding fromEntries_def by (drule map_of_SomeD) simp

lemma no_fetch_from_matching_cache:
  assumes "\<forall>f\<in>set fs. \<exists>d. m (path f) = Some d \<and> sha d = sha f \<and> meta d \<noteq> None"
  shows "filter (\<lambda>f. meta f = None) (map (restoreCached m) fs) = []"
proof -
  have "meta (restoreCached m x) \<noteq> None" if "x \<in> set fs" for x
  proof -
    from assms that obtain d where "m (path x) = Some d" "sha d = sha x" "meta d \<noteq> None"
      by blast
    then show ?thesis
      by (auto simp: restoreCached_def objectAssign_def nullish_def split: option.splits)
  qed
  then show ?thesis by (simp add: filter_empty_conv)
qed

lemma populated_refresh_run:
  fixes s :: "('e, 'a) app_state"
  assumes "repositoryBranch s = [] \<longrightarrow> fetchDefaultBranchName cs = Inr b"
    and "fetchLastCommitHash cs = Inr h"
    and "\<not> cacheIsCurrent (lastCommitHash s) h (fileCache s)"
    and "fetchFileList cs = Inr files"
    and "fl = createFileList (getFileExtension ms) (allEntryFolders ms) (allAssetFolders ms) files"
    and "\<forall>f\<in>set (allFiles fl).
           \<exists>d. fromEntries (fileCache s) (path f) = Some d \<and> sha d = sha f \<and> meta d \<noteq> None"
  shows "fst (fetchAndParseFiles ms cs s) = Inr ()
    \<and> dataLoaded (snd (fetchAndParseFiles ms cs s))
    \<and> fileCache (snd (fetchAndParseFiles ms cs s)) =
        (if count fl = 0 then fileCache s
         else filter (\<lambda>e. fst e \<notin> fst ` set (fileCache s) - path ` set (allFiles fl)) (fileCache s))
    \<and> lastCommitHash (snd (fetchAndParseFiles ms cs s)) = Some h
    \<and> repositoryBranch (snd (fetchAndParseFiles ms cs s)) =
        (if repositoryBranch s = [] then b else repositoryBranch s)
    \<and> (\<forall>fs. FetchFileContents fs \<notin> set (callsOf ms cs s))"
proof (cases "count fl = 0")
  case True
  with assms(3,4) show ?thesis
    unfolding assms(5)
    by (simp add: callsOf_def fetchAndParseFiles_resolved[OF assms(1,2)] selectFileList_def Let_def)
next
  case False
  from assms(3,4) have src: "(if cacheIsCurrent (lastCommitHash s) h (fileCache s)
        then Inr (map cachedFile (fileCache s)) else fetchFileList cs) = Inr files" by simp
  from fetchAndParseFiles_loadFiles[OF assms(1,2) src False[unfolded assms(5)]]
  obtain s3 evs where
    run: "fetchAndParseFiles ms cs s = loadFiles ms cs (fileCache s) fl s3"
    and s3: "fileCache s3 = fileCache s" "calls s3 = calls s @ evs"
      "\<forall>fs. FetchFileContents fs \<notin> set evs"
      "repositoryBranch s3 = (if repositoryBranch s = [] then b else repositoryBranch s)"
      "lastCommitHash s3 = Some h"
    unfolding assms(5) by blast
  have nf: "filter (\<lambda>f. meta f = None)
      (map (restoreCached (fromEntries (fileCache s))) (allFiles fl)) = []"
    by (rule no_fetch_from_matching_cache[OF assms(6)])
  note unf = loadFiles_unfold[of ms cs "fileCache s" fl s3, unfolded nf]
  have ok: "fst (loadFiles ms cs (fileCache s) fl s3) = Inr ()"
    unfolding unf by simp
  have cache: "fileCache (snd (fetchAndParseFiles ms cs s)) =
      filter (\<lambda>e. fst e \<notin> fst ` set (fileCache s) - path ` set (allFiles fl)) (fileCache s)"
    unfolding run loadFiles_fileCache[OF ok] nf using s3(1) by simp
  have rest: "fst (fetchAndParseFiles ms cs s) = Inr ()
    \<and> dataLoaded (snd (fetchAndParseFiles ms cs s))
    \<and> lastCommitHash (snd (fetchAndParseFiles ms cs s)) = Some h
    \<and> repositoryBranch (snd (fetchAndParseFiles ms cs s)) =
        (if repositoryBranch s = [] then b else repositoryBranch s)
    \<and> (\<forall>fs. FetchFileContents fs \<notin> set (callsOf ms cs s))"
    unfolding callsOf_def run unf using s3
    by (simp add: deleteEntries_def)
  from False rest cache show ?thesis by simp
qed

text \<open>
  Claim C6. Let the remote state be fixed: the same collaborators answer both runs, and
  the branch and the commit hash are resolved. Let the cache be fully populated: every
  record of it has its \<open>meta\<close>, and either the cache is current (line 121: the stored hash
  is the non-empty hash the remote resolves to, and the file cache is not empty), or the
  remote listing answers and the cache holds, for every listed file that a folder
  manages, a record with the \<open>sha\<close> of that file. Then two consecutive runs both return
  normally, \<open>dataLoaded\<close> is true after each, and neither run calls \<open>fetchFileContents\<close>.
  When the cache is current the second run publishes the same \<open>allEntries\<close> and
  \<open>allAssets\<close> as the first. When it is not, the first run publishes the files in the
  order of the remote listing and the second, reading the cache, in the order of the
  cache keys, so the outputs of the two runs can differ.
\<close>

theorem consecutive_syncs_same_outputs:
  fixes s :: "('e, 'a) app_state"
  assumes "repositoryBranch s = [] \<longrightarrow> fetchDefaultBranchName cs = Inr b"
    and "fetchLastCommitHash cs = Inr h"
    and "\<forall>e\<in>set (fileCache s). meta (snd e) \<noteq> None"
    and "cacheIsCurrent (lastCommitHash s) h (fileCache s)
         \<or> (fetchFileList cs = Inr files
            \<and> (\<forall>f\<in>set (allFiles (createFileList (getFileExtension ms) (allEntryFolders ms)
                                     (allAssetFolders ms) files)).
                  \<exists>d. fromEntries (fileCache s) (path f) = Some d \<and> sha d = sha f))"
    and "s1 = snd (fetchAndParseFiles ms cs s)"
    and "s2 = snd (fetchAndParseFiles ms cs s1)"
  shows "fst (fetchAndParseFiles ms cs s) = Inr ()
    \<and> fst (fetchAndParseFiles ms cs s1) = Inr ()
    \<and> dataLoaded s1 \<and> dataLoaded s2
    \<and> (\<forall>fs. FetchFileContents fs \<notin> set (callsOf ms cs s))
    \<and> (\<forall>fs. FetchFileContents fs \<notin> set (callsOf ms cs s1))
    \<and> (cacheIsCurrent (lastCommitHash s) h (fileCache s) \<longrightarrow>
          allEntries s2 = allEntries s1 \<and> allAssets s2 = allAssets s1)"
proof (cases "cacheIsCurrent (lastCommitHash s) h (fileCache s)")
  case True
  then have "lastCommitHash s = Some h" "h \<noteq> []" "fileCache s \<noteq> []"
    by (simp_all add: cacheIsCurrent_iff)
  from cache_path_runs_agree[OF assms(1,2) this assms(3,5,6)] True
  show ?thesis by blast
next
  case False
  with assms(4) have list: "fetchFileList cs = Inr files" by blast
  define fl where "fl = createFileList (getFileExtension ms) (allEntryFolders ms)
    (allAssetFolders ms) files"
  define U where "U = fst ` set (fileCache s) - path ` set (allFiles fl)"
  from False assms(4) have rec:
    "\<forall>f\<in>set (allFiles fl). \<exists>d. fromEntries (fileCache s) (path f) = Some d \<and> sha d = sha f"
    unfolding fl_def by blast
  have match: "\<forall>f\<in>set (allFiles fl).
      \<exists>d. fromEntries (fileCache s) (path f) = Some d \<and> sha d = sha f \<and> meta d \<noteq> None"
  proof
    fix f assume "f \<in> set (allFiles fl)"
    with rec obtain d where d: "fromEntries (fileCache s) (path f) = Some d" "sha d = sha f"
      by blast
    from fromEntries_SomeD[OF d(1)] assms(3) have "meta d \<noteq> None" by auto
    with d show "\<exists>d. fromEntries (fileCache s) (path f) = Some d \<and> sha d = sha f \<and> meta d \<noteq> None"
      by blast
  qed
  note r1 = populated_refresh_run[OF assms(1,2) False list fl_def match, folded assms(5) U_def]
  have branch1: "repositoryBranch s1 = [] \<longrightarrow> fetchDefaultBranchName cs = Inr b"
    using r1 assms(1) by (auto split: if_splits)
  have hash1: "lastCommitHash s1 = Some h" using r1 by simp
  have cache1: "fileCache s1 = (if count fl = 0 then fileCache s
      else filter (\<lambda>e. fst e \<notin> U) (fileCache s))"
    using r1 by simp
  have meta1: "\<forall>e\<in>set (fileCache s1). meta (snd e) \<noteq> None"
    unfolding cache1 using assms(3) by auto
  have run2: "fst (fetchAndParseFiles ms cs s1) = Inr () \<and> dataLoaded s2
      \<and> (\<forall>fs. FetchFileContents fs \<notin> set (callsOf ms cs s1))"
  proof (cases "cacheIsCurrent (lastCommitHash s1) h (fileCache s1)")
    case True
    then have c: "lastCommitHash s1 = Some h" "h \<noteq> []" "fileCache s1 \<noteq> []"
      by (simp_all add: cacheIsCurrent_iff)
    from current_cache_run[where ms=ms, OF branch1 assms(2) c meta1 refl, folded assms(6)]
    show ?thesis by blast
  next
    case stale: False
    have match1: "\<forall>f\<in>set (allFiles fl).
        \<exists>d. fromEntries (fileCache s1) (path f) = Some d \<and> sha d = sha f \<and> meta d \<noteq> None"
    proof
      fix f assume f: "f \<in> set (allFiles fl)"
      then have "count fl \<noteq> 0"
        unfolding fl_def count_createFileList by auto
      moreover from f have "path f \<notin> U" by (simp add: U_def)
      ultimately have "fromEntries (fileCache s1) (path f) = fromEntries (fileCache s) (path f)"
        using fromEntries_filter[of "\<lambda>k. k \<notin> U" "fileCache s" "path f"] by (simp add: cache1)
      with match f show "\<exists>d. fromEntries (fileCache s1) (path f) = Some d \<and> sha d = sha f
          \<and> meta d \<noteq> None" by simp
    qed
    from populated_refresh_run[OF branch1 assms(2) stale list fl_def match1, folded assms(6)]
    show ?thesis by blast
  qed
  from r1 run2 False show ?thesis by blast
qed

text \<open>
  Both cases of the hypothesis. A current cache of three records, one of them for a file
  no folder manages: the first run deletes that record and fetches nothing, the second
  does nothing but ask for the hash, and publishes the same entry and asset. A cache with
  a hash of an earlier commit and a record for each of the two listed files: both runs
  return normally and neither calls \<open>fetchFileContents\<close>.
\<close>

theorem consecutive_syncs_same_outputs_witness:
  "fetchLastCommitHash exampleRemote = Inr ''c1''
   \<and> lastCommitHash syncedState = Some ''c1''
   \<and> map fst (fileCache syncedState) =
        [''README.txt'', ''content/posts/a.md'', ''static/images/cat.png'']
   \<and> callsOf exampleModules exampleRemote syncedState =
        [FetchLastCommitHash, DeleteEntries [''README.txt'']]
   \<and> callsOf exampleModules exampleRemote
        (snd (fetchAndParseFiles exampleModules exampleRemote syncedState)) = [FetchLastCommitHash]
   \<and> map path (allEntries (snd (fetchAndParseFiles exampleModules exampleRemote syncedState)))
        = [''content/posts/a.md'']
   \<and> allEntries (snd (fetchAndParseFiles exampleModules exampleRemote
        (snd (fetchAndParseFiles exampleModules exampleRemote syncedState))))
      = allEntries (snd (fetchAndParseFiles exampleModules exampleRemote syncedState))
   \<and> allAssets (snd (fetchAndParseFiles exampleModules exampleRemote
        (snd (fetchAndParseFiles exampleModules exampleRemote syncedState))))
      = allAssets (snd (fetchAndParseFiles exampleModules exampleRemote syncedState))
   \<and> lastCommitHash reorderedState = Some ''c0''
   \<and> fst (fetchAndParseFiles exampleModules reorderedRemote reorderedState) = Inr ()
   \<and> fst (fetchAndParseFiles exampleModules reorderedRemote
        (snd (fetchAndParseFiles exampleModules reorderedRemote reorderedState))) = Inr ()
   \<and> (\<forall>fs. FetchFileContents fs \<notin> set (callsOf exampleModules reorderedRemote reorderedState))
   \<and> (\<forall>fs. FetchFileContents fs \<notin> set (callsOf exampleModules reorderedRemote
        (snd (fetchAndParseFiles exampleModules reorderedRemote reorderedState))))"
proof -
  have b: "repositoryBranch syncedState = [] \<longrightarrow> fetchDefaultBranchName exampleRemote = Inr ''main''"
    by (simp add: remote_defs)
  have h: "fetchLastCommitHash exampleRemote = Inr ''c1''"
    by (simp add: remote_defs)
  have c: "lastCommitHash syncedState = Some ''c1''"
    by (simp add: remote_defs)
  have m: "\<forall>e\<in>set (fileCache syncedState). meta (snd e) \<noteq> None"
    by (simp add: remote_defs)
  have cur: "cacheIsCurrent (lastCommitHash syncedState) ''c1'' (fileCache syncedState)"
    by (simp add: remote_defs cacheIsCurrent_def)
  then have d: "cacheIsCurrent (lastCommitHash syncedState) ''c1'' (fileCache syncedState)
      \<or> (fetchFileList exampleRemote = Inr []
         \<and> (\<forall>f\<in>set (allFiles (createFileList (getFileExtension exampleModules)
               (allEntryFolders exampleModules) (allAssetFolders exampleModules) [])).
               \<exists>d. fromEntries (fileCache syncedState) (path f) = Some d \<and> sha d = sha f))"
    by blast
  have r1: "snd (fetchAndParseFiles exampleModules exampleRemote syncedState) =
      syncedState\<lparr>fileCache := [(''content/posts/a.md'', fetchedData ''1''),
                                 (''static/images/cat.png'', fetchedData ''2'')],
        allEntries := [objectAssign
           (listItem (plainFile ''content/posts/a.md'' ''1'') entry (EntryFolder postsFolder))
           (fetchedData ''1'')],
        allAssets := [mergeAsset Map.empty (objectAssign
           (listItem (plainFile ''static/images/cat.png'' ''2'') asset (AssetFolder imagesFolder))
           (fetchedData ''2''))],
        dataLoaded := True,
        calls := [FetchLastCommitHash, DeleteEntries [''README.txt'']]\<rparr>"
    by (simp add: sync_defs remote_defs example_defs classify_defs)
  have c1: "callsOf exampleModules exampleRemote syncedState =
        [FetchLastCommitHash, DeleteEntries [''README.txt'']]"
    unfolding callsOf_def r1 by (simp add: remote_defs)
  have c2: "callsOf exampleModules exampleRemote
        (snd (fetchAndParseFiles exampleModules exampleRemote syncedState)) = [FetchLastCommitHash]"
    unfolding r1 by (simp add: sync_defs remote_defs example_defs classify_defs)
  have p: "map path (allEntries (snd (fetchAndParseFiles exampleModules exampleRemote syncedState)))
        = [''content/posts/a.md'']"
    unfolding r1 by (simp add: objectAssign_def listItem_def plainFile_def)
  have b': "repositoryBranch reorderedState = []
      \<longrightarrow> fetchDefaultBranchName reorderedRemote = Inr ''main''"
    by (simp add: remote_defs reorderedState_def)
  have h': "fetchLastCommitHash reorderedRemote = Inr ''c1''"
    by (simp add: remote_defs reorderedRemote_def)
  have c': "lastCommitHash reorderedState = Some ''c0''"
    by (simp add: remote_defs reorderedState_def)
  have m': "\<forall>e\<in>set (fileCache reorderedState). meta (snd e) \<noteq> None"
    by (simp add: remote_defs reorderedState_def)
  have d': "cacheIsCurrent (lastCommitHash reorderedState) ''c1'' (fileCache reorderedState)
      \<or> (fetchFileList reorderedRemote =
            Inr [plainFile ''content/posts/z.md'' ''2'', plainFile ''content/posts/a.md'' ''1'']
         \<and> (\<forall>f\<in>set (allFiles (createFileList (getFileExtension exampleModules)
               (allEntryFolders exampleModules) (allAssetFolders exampleModules)
               [plainFile ''content/posts/z.md'' ''2'', plainFile ''content/posts/a.md'' ''1''])).
               \<exists>d. fromEntries (fileCache reorderedState) (path f) = Some d \<and> sha d = sha f))"
    by (simp add: sync_defs remote_defs reorderedState_def reorderedRemote_def example_defs
        classify_defs)
  from consecutive_syncs_same_outputs[where s=syncedState and ms=exampleModules
      and cs=exampleRemote, OF b h m d refl refl]
    consecutive_syncs_same_outputs[where s=reorderedState and ms=exampleModules
      and cs=reorderedRemote, OF b' h' m' d' refl refl]
    cur h c c' c1 c2 p
  show ?thesis by (simp add: remote_defs)
qed

text \<open>
  Identical outputs need the stored hash to be current. Here the cache has a record for
  each of the two files of the remote, with the right \<open>sha\<close> and \<open>meta\<close>, but the stored
  hash is that of an earlier commit. The first run lists the remote and publishes
  \<open>z.md\<close> before \<open>a.md\<close>, the order of the listing; the second finds the hash current,
  reads the cache and publishes \<open>a.md\<close> before \<open>z.md\<close>, the order of the keys.
\<close>

theorem stale_hash_counterexample:
  "fetchLastCommitHash reorderedRemote = Inr ''c1''
   \<and> fetchFileList reorderedRemote =
        Inr [plainFile ''content/posts/z.md'' ''2'', plainFile ''content/posts/a.md'' ''1'']
   \<and> lastCommitHash reorderedState = Some ''c0''
   \<and> fileCache reorderedState =
        [(''content/posts/a.md'', fetchedData ''1''), (''content/posts/z.md'', fetchedData ''2'')]
   \<and> callsOf exampleModules reorderedRemote reorderedState =
        [FetchLastCommitHash, FetchFileList, SetLastCommitHash ''c1'']
   \<and> callsOf exampleModules reorderedRemote
        (snd (fetchAndParseFiles exampleModules reorderedRemote reorderedState))
        = [FetchLastCommitHash]
   \<and> map path (allEntries (snd (fetchAndParseFiles exampleModules reorderedRemote reorderedState)))
        = [''content/posts/z.md'', ''content/posts/a.md'']
   \<and> map path (allEntries (snd (fetchAndParseFiles exampleModules reorderedRemote
        (snd (fetchAndParseFiles exampleModules reorderedRemote reorderedState)))))
        = [''content/posts/a.md'', ''content/posts/z.md'']
   \<and> allEntries (snd (fetchAndParseFiles exampleModules reorderedRemote
        (snd (fetchAndParseFiles exampleModules reorderedRemote reorderedState))))
      \<noteq> allEntries (snd (fetchAndParseFiles exampleModules reorderedRemote reorderedState))"
proof -
  have r1: "snd (fetchAndParseFiles exampleModules reorderedRemote reorderedState) =
      reorderedState\<lparr>lastCommitHash := Some ''c1'',
        allEntries := [objectAssign
           (listItem (plainFile ''content/posts/z.md'' ''2'') entry (EntryFolder postsFolder))
           (fetchedData ''2''),
          objectAssign
           (listItem (plainFile ''content/posts/a.md'' ''1'') entry (EntryFolder postsFolder))
           (fetchedData ''1'')],
        allAssets := [],
        dataLoaded := True,
        calls := [FetchLastCommitHash, FetchFileList, SetLastCommitHash ''c1'']\<rparr>"
    by (simp add: sync_defs remote_defs reorderedState_def reorderedRemote_def example_defs
        classify_defs)
  have c1: "callsOf exampleModules reorderedRemote reorderedState =
        [FetchLastCommitHash, FetchFileList, SetLastCommitHash ''c1'']"
    unfolding callsOf_def r1 by (simp add: remote_defs reorderedState_def)
  have p1: "map path (allEntries (snd (fetchAndParseFiles exampleModules reorderedRemote
        reorderedState))) = [''content/posts/z.md'', ''content/posts/a.md'']"
    unfolding r1 by (simp add: objectAssign_def listItem_def plainFile_def)
  have c2: "callsOf exampleModules reorderedRemote
        (snd (fetchAndParseFiles exampleModules reorderedRemote reorderedState))
        = [FetchLastCommitHash]"
    unfolding r1
    by (simp add: sync_defs remote_defs reorderedState_def reorderedRemote_def example_defs
        classify_defs)
  have p2: "map path (allEntries (snd (fetchAndParseFiles exampleModules reorderedRemote
        (snd (fetchAndParseFiles exampleModules reorderedRemote reorderedState)))))
        = [''content/posts/a.md'', ''content/posts/z.md'']"
    unfolding r1
    by (simp add: sync_defs remote_defs reorderedState_def reorderedRemote_def example_defs
        classify_defs)
  have ne: "allEntries (snd (fetchAndParseFiles exampleModules reorderedRemote
        (snd (fetchAndParseFiles exampleModules reorderedRemote reorderedState))))
      \<noteq> allEntries (snd (fetchAndParseFiles exampleModules reorderedRemote reorderedState))"
  proof
    assume "allEntries (snd (fetchAndParseFiles exampleModules reorderedRemote
          (snd (fetchAndParseFiles exampleModules reorderedRemote reorderedState))))
        = allEntries (snd (fetchAndParseFiles exampleModules reorderedRemote reorderedState))"
    then have "map path (allEntries (snd (fetchAndParseFiles exampleModules reorderedRemote
          (snd (fetchAndParseFiles exampleModules reorderedRemote reorderedState)))))
        = map path (allEntries (snd (fetchAndParseFiles exampleModules reorderedRemote
            reorderedState)))"
      by (rule arg_cong)
    then show False unfolding p1 p2 by simp
  qed
  have rest: "fetchLastCommitHash reorderedRemote = Inr ''c1''
   \<and> fetchFileList reorderedRemote =
        Inr [plainFile ''content/posts/z.md'' ''2'', plainFile ''content/posts/a.md'' ''1'']
   \<and> lastCommitHash reorderedState = Some ''c0''
   \<and> fileCache reorderedState =
        [(''content/posts/a.md'', fetchedData ''1''), (''content/posts/z.md'', fetchedData ''2'')]"
    by (simp add: remote_defs reorderedState_def reorderedRemote_def)
  from rest c1 c2 p1 p2 ne show ?thesis by blast
qed

section \<open>Properties of \<open>getI18nConfig\<close>\<close>

lemma selectConfig_objects:
  assumes "site_i18n sc = I18nObject a" and "collection_i18n c = I18nObject b"
  shows "selectConfig h (Some sc) (Some c) file =
     (case file of
        None \<Rightarrow> (Some a, h(a := assignProperties (h a) (h b)))
      | Some f \<Rightarrow>
          (case file_i18n f of
             I18nObject d \<Rightarrow>
               (Some a, (h(a := assignProperties (h a) (h b)))
                    (a := assignProperties (assignProperties (h a) (h b))
                            ((h(a := assignProperties (h a) (h b))) d)))
           | I18nBoolean t \<Rightarrow> (if t then Some a else None, h(a := assignProperties (h a) (h b)))
           | I18nUndefined \<Rightarrow> (None, h(a := assignProperties (h a) (h b)))))"
  using assms
  by (simp add: selectConfig_def isObject_def truthy_def objectAssignAt_def Let_def
      split: option.splits i18n_value.splits)

text \<open>
  Claim C10. In every call in which the \<open>i18n\<close> value of the site configuration is an
  object and \<open>collection.i18n\<close> is an object, whatever the \<open>file\<close> argument is,
  \<open>getI18nConfig\<close> writes the properties of \<open>collection.i18n\<close> into the site's object
  (lines 34-36 come before the file is looked at), and after them those of \<open>file.i18n\<close>
  when a file with an object there is given; a file without \<open>i18n\<close>, or with a boolean,
  adds nothing and takes nothing back. The store the call leaves holds the written
  object, so a later call for another collection, whose own \<open>i18n\<close> object is not the
  site's, normalizes the site's object as the earlier call left it, overridden by its
  own: after a call without a file, the site's properties, then the earlier
  collection's, then its own.
\<close>

theorem getI18nConfig_writes_site_object:
  assumes "site_i18n sc = I18nObject a" and "collection_i18n c = I18nObject b"
  shows "snd (getI18nConfig h (Some sc) (Some c) cfile) =
           (case cfile of
              None \<Rightarrow> h(a := assignProperties (h a) (h b))
            | Some f \<Rightarrow>
                (case file_i18n f of
                   I18nObject d \<Rightarrow>
                     (h(a := assignProperties (h a) (h b)))
                       (a := assignProperties (assignProperties (h a) (h b))
                               ((h(a := assignProperties (h a) (h b))) d))
                 | I18nBoolean t \<Rightarrow> h(a := assignProperties (h a) (h b))
                 | I18nUndefined \<Rightarrow> h(a := assignProperties (h a) (h b))))
    \<and> (\<forall>c2 b2. collection_i18n c2 = I18nObject b2 \<and> b2 \<noteq> a \<longrightarrow>
          fst (getI18nConfig (snd (getI18nConfig h (Some sc) (Some c) cfile)) (Some sc) (Some c2) None)
            = normalize (assignProperties (snd (getI18nConfig h (Some sc) (Some c) cfile) a) (h b2))
                False)
    \<and> (\<forall>c2 b2. collection_i18n c2 = I18nObject b2 \<and> b2 \<noteq> a \<longrightarrow>
          fst (getI18nConfig (snd (getI18nConfig h (Some sc) (Some c) None)) (Some sc) (Some c2) None)
            = normalize (assignProperties (assignProperties (h a) (h b)) (h b2)) False)"
proof (intro conjI allI impI)
  show 1: "snd (getI18nConfig h (Some sc) (Some c) cfile) =
           (case cfile of
              None \<Rightarrow> h(a := assignProperties (h a) (h b))
            | Some f \<Rightarrow>
                (case file_i18n f of
                   I18nObject d \<Rightarrow>
                     (h(a := assignProperties (h a) (h b)))
                       (a := assignProperties (assignProperties (h a) (h b))
                               ((h(a := assignProperties (h a) (h b))) d))
                 | I18nBoolean t \<Rightarrow> h(a := assignProperties (h a) (h b))
                 | I18nUndefined \<Rightarrow> h(a := assignProperties (h a) (h b))))" for cfile
    by (simp add: getI18nConfig_def selectConfig_objects[OF assms]
        split: option.splits i18n_value.splits)
  have later: "fst (getI18nConfig h' (Some sc) (Some c2) None)
        = normalize (assignProperties (h' a) (h' b2)) False"
    if "collection_i18n c2 = I18nObject b2" for h' c2 b2
    using that by (simp add: getI18nConfig_def selectConfig_objects[OF assms(1)])
  have other: "snd (getI18nConfig h (Some sc) (Some c) cfile) b2 = h b2" if "b2 \<noteq> a" for cfile b2
    using that unfolding 1 by (simp split: option.splits i18n_value.splits)
  show "fst (getI18nConfig (snd (getI18nConfig h (Some sc) (Some c) cfile)) (Some sc) (Some c2) None)
            = normalize (assignProperties (snd (getI18nConfig h (Some sc) (Some c) cfile) a) (h b2))
                False"
    if "collection_i18n c2 = I18nObject b2 \<and> b2 \<noteq> a" for c2 b2
    using that later[of c2 b2] other[of b2 cfile] by simp
  show "fst (getI18nConfig (snd (getI18nConfig h (Some sc) (Some c) None)) (Some sc) (Some c2) None)
            = normalize (assignProperties (assignProperties (h a) (h b)) (h b2)) False"
    if "collection_i18n c2 = I18nObject b2 \<and> b2 \<noteq> a" for c2 b2
    using that later[of c2 b2] other[of b2 None] 1[of None] by simp
qed

text \<open>
  The site's object at address 0 is overwritten by the collection's at address 1, also
  in a call for a file that has no \<open>i18n\<close> (whose result is the default configuration).
  A second collection with an empty \<open>i18n\<close> object then gets the locales of the first,
  not the site's.
\<close>

theorem getI18nConfig_writes_site_object_witness:
  "site_i18n \<lparr>site_i18n = I18nObject 0\<rparr> = I18nObject 0
   \<and> collection_i18n \<lparr>collection_i18n = I18nObject 1\<rparr> = I18nObject 1
   \<and> snd (getI18nConfig exampleStore (Some \<lparr>site_i18n = I18nObject 0\<rparr>)
            (Some \<lparr>collection_i18n = I18nObject 1\<rparr>) None) 0 = blogObject
   \<and> snd (getI18nConfig exampleStore (Some \<lparr>site_i18n = I18nObject 0\<rparr>)
            (Some \<lparr>collection_i18n = I18nObject 1\<rparr>) (Some \<lparr>file_i18n = I18nUndefined\<rparr>)) 0
        = blogObject
   \<and> i18nEnabled (fst (getI18nConfig exampleStore (Some \<lparr>site_i18n = I18nObject 0\<rparr>)
            (Some \<lparr>collection_i18n = I18nObject 1\<rparr>) (Some \<lparr>file_i18n = I18nUndefined\<rparr>)))
        = False
   \<and> exampleStore 0 = siteObject
   \<and> blogObject \<noteq> siteObject
   \<and> locales (fst (getI18nConfig
        (snd (getI18nConfig exampleStore (Some \<lparr>site_i18n = I18nObject 0\<rparr>)
                (Some \<lparr>collection_i18n = I18nObject 1\<rparr>) (Some \<lparr>file_i18n = I18nUndefined\<rparr>)))
        (Some \<lparr>site_i18n = I18nObject 0\<rparr>) (Some \<lparr>collection_i18n = I18nObject 2\<rparr>) None))
       = [''de'']
   \<and> locales (fst (getI18nConfig
        (snd (getI18nConfig exampleStore (Some \<lparr>site_i18n = I18nObject 0\<rparr>)
                (Some \<lparr>collection_i18n = I18nObject 1\<rparr>) None))
        (Some \<lparr>site_i18n = I18nObject 0\<rparr>) (Some \<lparr>collection_i18n = I18nObject 2\<rparr>) None))
       = [''de'']
   \<and> locales (fst (getI18nConfig exampleStore
        (Some \<lparr>site_i18n = I18nObject 0\<rparr>) (Some \<lparr>collection_i18n = I18nObject 2\<rparr>) None))
       = [''en'', ''fr'']"
  using getI18nConfig_writes_site_object[where sc="\<lparr>site_i18n = I18nObject 0\<rparr>" and a=0
      and c="\<lparr>collection_i18n = I18nObject 1\<rparr>" and b=1 and h=exampleStore
      and cfile="Some \<lparr>file_i18n = I18nUndefined\<rparr>"]
  by (simp add: exampleStore_def siteObject_def blogObject_def emptyObject_def
      assignProperties_def nullish_def normalize_def getI18nConfig_def selectConfig_def
      isObject_def truthy_def objectAssignAt_def Let_def)

end
